theory Spec2Isabelle
  imports Main
begin

section \<open>Strings and sizes of the C++ standard library\<close>

text \<open>
  A \<open>std::string\<close> is a \<open>char list\<close>. Positions are \<open>size_t\<close>: 64-bit unsigned, so
  the subtractions \<open>length() - 1\<close> and \<open>length() - 4\<close> of the source wrap around on short
  strings. \<open>std::string::npos\<close> is the value \<open>None\<close> of a position.
\<close>

definition size_limit :: int where
  "size_limit = 2 ^ 64"

definition size_sub :: "nat \<Rightarrow> nat \<Rightarrow> nat" where
  "size_sub a b = nat ((int a - int b) mod size_limit)"

text \<open>
  \<open>s.rfind(c)\<close>: the search starts at the last character and walks down to index 0.
\<close>

fun rfind_char_from :: "string \<Rightarrow> char \<Rightarrow> nat \<Rightarrow> nat option" where
  "rfind_char_from s c 0 = (if s ! 0 = c then Some 0 else None)"
| "rfind_char_from s c (Suc i) =
     (if s ! Suc i = c then Some (Suc i) else rfind_char_from s c i)"

definition rfind_char :: "string \<Rightarrow> char \<Rightarrow> nat option" where
  "rfind_char s c = (if s = [] then None else rfind_char_from s c (length s - 1))"

text \<open>
  \<open>s.rfind(pat)\<close> for a string \<open>pat\<close>: the search starts at \<open>size() - pat.size()\<close>
  (when the pattern fits at all) and walks down to index 0, comparing \<open>pat.size()\<close>
  characters at each position.
\<close>

fun rfind_from :: "string \<Rightarrow> string \<Rightarrow> nat \<Rightarrow> nat option" where
  "rfind_from s pat 0 = (if take (length pat) s = pat then Some 0 else None)"
| "rfind_from s pat (Suc i) =
     (if take (length pat) (drop (Suc i) s) = pat then Some (Suc i) else rfind_from s pat i)"

definition rfind :: "string \<Rightarrow> string \<Rightarrow> nat option" where
  "rfind s pat =
     (if length pat \<le> length s then rfind_from s pat (length s - length pat) else None)"

text \<open>
  \<open>s.find_last_of(cs)\<close>: the last position holding one of the characters of \<open>cs\<close>.
\<close>

fun find_last_of_from :: "string \<Rightarrow> string \<Rightarrow> nat \<Rightarrow> nat option" where
  "find_last_of_from s cs 0 = (if s ! 0 \<in> set cs then Some 0 else None)"
| "find_last_of_from s cs (Suc i) =
     (if s ! Suc i \<in> set cs then Some (Suc i) else find_last_of_from s cs i)"

definition find_last_of :: "string \<Rightarrow> string \<Rightarrow> nat option" where
  "find_last_of s cs = (if s = [] then None else find_last_of_from s cs (length s - 1))"

text \<open>
  \<open>std::tolower\<close> on an \<open>unsigned char\<close> in the "C" locale (the program never calls
  \<open>setlocale\<close>): the 26 upper-case letters map to their lower-case letters, every other
  byte is unchanged.
\<close>

definition tolower :: "char \<Rightarrow> char" where
  "tolower c =
     (case map_of (zip ''ABCDEFGHIJKLMNOPQRSTUVWXYZ'' ''abcdefghijklmnopqrstuvwxyz'') c of
        Some l \<Rightarrow> l
      | None \<Rightarrow> c)"

section \<open>ObjLoader.cpp\<close>

subsection \<open>File extensions\<close>

definition GetFileExtension :: "string \<Rightarrow> string" where
  "GetFileExtension filename =
     (case rfind_char filename (CHR ''.'') of
        None \<Rightarrow> []
      | Some dotPos \<Rightarrow>
          if dotPos = size_sub (length filename) 1 then []
          else map tolower (drop (dotPos + 1) filename))"

definition IsObjFile :: "string \<Rightarrow> bool" where
  "IsObjFile filename = (GetFileExtension filename = ''obj'')"

definition IsOffFile :: "string \<Rightarrow> bool" where
  "IsOffFile filename = (GetFileExtension filename = ''off'')"

subsection \<open>Parsing an OBJ file\<close>

text \<open>
  \<open>tinyobj::LoadObj\<close> is a library call: its outcome is a parameter of the model. Of the
  data it fills in, \<open>ParseObjFile\<close> reads the flat coordinate array
  \<open>attrib.vertices\<close> and, per shape, \<open>mesh.num_face_vertices\<close> and the
  \<open>vertex_index\<close> of each entry of \<open>mesh.indices\<close>. Coordinates are kept abstract
  (type \<open>'r\<close>); the conversion from \<open>float\<close> to \<open>double\<close> preserves the value.
\<close>

record mesh_t =
  indices :: "int list"
  num_face_vertices :: "nat list"

record 'r LoadObj_result =
  ret :: bool
  err :: string
  attrib_vertices :: "'r list"
  shapes :: "mesh_t list"

record 'r ObjData =
  vertices :: "'r list"
  faces :: "int list list"

text \<open>
  What can go wrong outside the return value: reading \<open>mesh.indices\<close> past its end
  (undefined behaviour in the source), and an exception that no handler catches.
\<close>

datatype fault = IndexOutOfRange | UncaughtException

datatype obj_message = ObjSummary nat nat

text \<open>
  The inner loops over one shape: face \<open>f\<close> takes \<open>fv\<close> consecutive entries of
  \<open>indices\<close> starting at \<open>indexOffset\<close>.
\<close>

fun collect_shape_faces :: "int list \<Rightarrow> nat list \<Rightarrow> nat \<Rightarrow> int list list \<Rightarrow> fault + int list list" where
  "collect_shape_faces idx [] indexOffset fs = Inr fs"
| "collect_shape_faces idx (fv # fvs) indexOffset fs =
     (if fv = 0 \<or> indexOffset + fv \<le> length idx
      then collect_shape_faces idx fvs (indexOffset + fv) (fs @ [take fv (drop indexOffset idx)])
      else Inl IndexOutOfRange)"

fun collect_faces :: "mesh_t list \<Rightarrow> int list list \<Rightarrow> fault + int list list" where
  "collect_faces [] fs = Inr fs"
| "collect_faces (sh # shs) fs =
     (case collect_shape_faces (indices sh) (num_face_vertices sh) 0 fs of
        Inl e \<Rightarrow> Inl e
      | Inr fs' \<Rightarrow> collect_faces shs fs')"

definition base_dir :: "string \<Rightarrow> string" where
  "base_dir filename =
     (case find_last_of filename [CHR ''/'', CHR 0x5C] of
        None \<Rightarrow> []
      | Some lastSlash \<Rightarrow> take (lastSlash + 1) filename)"

text \<open>
  \<open>ParseObjFile(filename, data, error)\<close> returns its \<open>bool\<close> together with the two
  reference parameters as it leaves them and the line it prints on standard output.
  The local \<open>warn\<close> is never passed to the library, so it stays empty and its message is
  never printed.
\<close>

definition ParseObjFile ::
  "(string \<Rightarrow> string option \<Rightarrow> 'r LoadObj_result) \<Rightarrow> string \<Rightarrow> 'r ObjData \<Rightarrow> string \<Rightarrow>
   fault + (bool \<times> 'r ObjData \<times> string \<times> obj_message list)" where
  "ParseObjFile LoadObj filename data error =
     (let baseDir = base_dir filename;
          r = LoadObj filename (if baseDir = [] then None else Some baseDir);
          error1 = (if err r \<noteq> [] then err r else error)
      in if \<not> ret r then
           Inr (False, data,
                if error1 = [] then ''Failed to load OBJ file: '' @ filename else error1, [])
         else if attrib_vertices r = [] then
           Inr (False, data, ''OBJ file contains no vertices'', [])
         else
           let data1 = data\<lparr>vertices := vertices data @ attrib_vertices r\<rparr> in
           case collect_faces (shapes r) (faces data1) of
             Inl e \<Rightarrow> Inl e
           | Inr fs \<Rightarrow>
               let data2 = data1\<lparr>faces := fs\<rparr> in
               if fs = [] then Inr (False, data2, ''OBJ file contains no faces'', [])
               else Inr (True, data2, error1,
                         [ObjSummary (length (vertices data2) div 3) (length fs)]))"

subsection \<open>Building the polyhedron\<close>

text \<open>
  The CGAL mesh is abstract (type \<open>'m\<close>). \<open>mesh.delegate(builder)\<close>, \<open>is_valid\<close> and
  \<open>is_closed\<close> are library calls and parameters of the model; \<open>delegate\<close> either
  returns, or throws a \<open>std::exception\<close> with its \<open>what()\<close> text, or throws something
  else, which \<open>LoadObjFile\<close> does not catch. The two overloads of \<open>LoadObjFile\<close> (for
  \<open>Mesh\<close> and for \<open>Polyhedron\<close>) have the same body; the model is the body.
\<close>

datatype 'm delegate_outcome = Built 'm | Threw string 'm | ThrewOther

record ('r, 'm) polyhedron_ops =
  delegate :: "'r ObjData \<Rightarrow> 'm \<Rightarrow> 'm delegate_outcome"
  is_valid :: "'m \<Rightarrow> bool"
  is_closed :: "'m \<Rightarrow> bool"

record 'm LoadObjFile_result =
  loaded :: bool
  mesh :: 'm
  error :: string
  warnings :: "string list"
  info :: "obj_message list"

definition LoadObjFile ::
  "(string \<Rightarrow> string option \<Rightarrow> 'r LoadObj_result) \<Rightarrow> ('r, 'm) polyhedron_ops \<Rightarrow>
   string \<Rightarrow> 'm \<Rightarrow> string \<Rightarrow> fault + 'm LoadObjFile_result" where
  "LoadObjFile LoadObj P filename mesh0 error0 =
     (case ParseObjFile LoadObj filename \<lparr>vertices = [], faces = []\<rparr> error0 of
        Inl e \<Rightarrow> Inl e
      | Inr (parsed, data, error1, out) \<Rightarrow>
          if \<not> parsed then
            Inr \<lparr>loaded = False, mesh = mesh0, error = error1, warnings = [], info = out\<rparr>
          else
            case delegate P data mesh0 of
              ThrewOther \<Rightarrow> Inl UncaughtException
            | Threw what m \<Rightarrow>
                Inr \<lparr>loaded = False, mesh = m,
                     error = ''Failed to build polyhedron: '' @ what, warnings = [], info = out\<rparr>
            | Built m \<Rightarrow>
                if \<not> is_valid P m then
                  Inr \<lparr>loaded = False, mesh = m, error = ''Resulting mesh is not valid'',
                       warnings = [], info = out\<rparr>
                else
                  Inr \<lparr>loaded = True, mesh = m, error = error1,
                       warnings = (if \<not> is_closed P m
                                   then [''Warning: Mesh is not closed (has boundary edges)'']
                                   else []),
                       info = out\<rparr>)"

section \<open>main_cli.cpp\<close>

subsection \<open>Numbers on the command line\<close>

text \<open>
  \<open>std::stoi(str)\<close> (base 10) is \<open>strtol\<close> in the "C" locale: leading white space is
  skipped, one sign is accepted, then the longest run of decimal digits is read and what
  follows it is ignored. With no digit it throws \<open>std::invalid_argument\<close>; with a value
  outside the range of a 32-bit \<open>int\<close> it throws \<open>std::out_of_range\<close>.
\<close>

datatype cpp_exception = invalid_argument | out_of_range

definition isspace :: "char \<Rightarrow> bool" where
  "isspace c = (c \<in> set [CHR '' '', CHR 0x09, CHR 0x0A, CHR 0x0B, CHR 0x0C, CHR 0x0D])"

definition digit_of :: "char \<Rightarrow> nat option" where
  "digit_of c = map_of (zip ''0123456789'' [0, 1, 2, 3, 4, 5, 6, 7, 8, 9]) c"

fun leading_digits :: "string \<Rightarrow> nat list" where
  "leading_digits [] = []"
| "leading_digits (c # cs) =
     (case digit_of c of None \<Rightarrow> [] | Some d \<Rightarrow> d # leading_digits cs)"

definition decimal :: "nat list \<Rightarrow> int" where
  "decimal ds = foldl (\<lambda>a d. 10 * a + int d) 0 ds"

definition stoi :: "string \<Rightarrow> cpp_exception + int" where
  "stoi str =
     (let s = dropWhile isspace str;
          negative = (s \<noteq> [] \<and> hd s = CHR ''-'');
          signed = (s \<noteq> [] \<and> (hd s = CHR ''-'' \<or> hd s = CHR ''+''));
          ds = leading_digits (if signed then tl s else s);
          v = (if negative then - decimal ds else decimal ds)
      in if ds = [] then Inl invalid_argument
         else if v < - 2147483648 \<or> 2147483647 < v then Inl out_of_range
         else Inr v)"

text \<open>
  \<open>std::stod\<close> and the type \<open>double\<close> are parameters: a value of type \<open>'d\<close> stands for
  a \<open>double\<close>, \<open>nonpositive x\<close> for the test \<open>x <= 0\<close>, and \<open>default_k\<close> for the
  initialiser \<open>0.00001\<close>.
\<close>

record 'd double_ops =
  stod :: "string \<Rightarrow> cpp_exception + 'd"
  nonpositive :: "'d \<Rightarrow> bool"
  default_k :: 'd

subsection \<open>parseArguments\<close>

record 'd CLIOptions =
  inputFile :: string
  outputPrefix :: string
  simplifyTarget :: int
  k :: 'd
  showHelp :: bool
  valid :: bool
  errorMessage :: string

definition initial_options :: "'d double_ops \<Rightarrow> 'd CLIOptions" where
  "initial_options D =
     \<lparr>inputFile = [], outputPrefix = [], simplifyTarget = - 1, k = default_k D,
      showHelp = False, valid = True, errorMessage = []\<rparr>"

text \<open>
  The \<open>for\<close> loop over \<open>argv[1..argc-1]\<close>, as a recursion over the arguments still to be
  read. \<open>Return\<close> is a \<open>return options;\<close> inside the loop, \<open>Completed\<close> is the loop
  running to its end. An option's value is consumed by \<open>argv[++i]\<close>.
\<close>

datatype 'a loop_exit = Return 'a | Completed 'a

fun parse_loop :: "'d double_ops \<Rightarrow> string list \<Rightarrow> 'd CLIOptions \<Rightarrow> 'd CLIOptions loop_exit" where
  "parse_loop D [] options = Completed options"
| "parse_loop D (arg # rest) options =
     (if arg = ''--help'' \<or> arg = ''-h'' then Return (options\<lparr>showHelp := True\<rparr>)
      else if arg = ''--simplify'' then
        (case rest of
           [] \<Rightarrow> Return (options\<lparr>valid := False,
                                errorMessage := ''--simplify requires a value.''\<rparr>)
         | v # rest' \<Rightarrow>
             (case stoi v of
                Inl e \<Rightarrow> Return (options\<lparr>valid := False,
                                        errorMessage := ''Invalid value for --simplify.''\<rparr>)
              | Inr n \<Rightarrow>
                  if n \<le> 0 then
                    Return (options\<lparr>simplifyTarget := n, valid := False,
                                    errorMessage := ''--simplify value must be positive.''\<rparr>)
                  else parse_loop D rest' (options\<lparr>simplifyTarget := n\<rparr>)))
      else if arg = ''--k'' then
        (case rest of
           [] \<Rightarrow> Return (options\<lparr>valid := False, errorMessage := ''--k requires a value.''\<rparr>)
         | v # rest' \<Rightarrow>
             (case stod D v of
                Inl e \<Rightarrow> Return (options\<lparr>valid := False,
                                        errorMessage := ''Invalid value for --k.''\<rparr>)
              | Inr x \<Rightarrow>
                  if nonpositive D x then
                    Return (options\<lparr>k := x, valid := False,
                                    errorMessage := ''--k value must be positive.''\<rparr>)
                  else parse_loop D rest' (options\<lparr>k := x\<rparr>)))
      else if arg = ''--output'' then
        (case rest of
           [] \<Rightarrow> Return (options\<lparr>valid := False,
                                errorMessage := ''--output requires a value.''\<rparr>)
         | v # rest' \<Rightarrow> parse_loop D rest' (options\<lparr>outputPrefix := v\<rparr>))
      else if arg \<noteq> [] \<and> hd arg = CHR ''-'' then
        Return (options\<lparr>valid := False, errorMessage := ''Unknown option: '' @ arg\<rparr>)
      else if inputFile options = [] then parse_loop D rest (options\<lparr>inputFile := arg\<rparr>)
      else Return (options\<lparr>valid := False,
                           errorMessage := ''Multiple input files specified.''\<rparr>))"

text \<open>
  The default output prefix: the input file name, without its last four characters when
  \<open>rfind(".off")\<close> finds the pattern at position \<open>length() - 4\<close>.
\<close>

definition default_prefix :: "string \<Rightarrow> string" where
  "default_prefix inputFile0 =
     (case rfind inputFile0 ''.off'' of
        None \<Rightarrow> inputFile0
      | Some dotPos \<Rightarrow>
          if dotPos = size_sub (length inputFile0) 4 then take dotPos inputFile0
          else inputFile0)"

text \<open>\<open>argv\<close> is the whole argument vector, program name first; \<open>argc\<close> is its length.\<close>

definition parseArguments :: "'d double_ops \<Rightarrow> string list \<Rightarrow> 'd CLIOptions" where
  "parseArguments D argv =
     (if length argv < 2 then
        (initial_options D)\<lparr>valid := False, errorMessage := ''No input file specified.''\<rparr>
      else
        case parse_loop D (tl argv) (initial_options D) of
          Return options \<Rightarrow> options
        | Completed options \<Rightarrow>
            if inputFile options = [] then
              options\<lparr>valid := False, errorMessage := ''No input file specified.''\<rparr>
            else if outputPrefix options = [] then
              options\<lparr>outputPrefix := default_prefix (inputFile options)\<rparr>
            else options)"

text \<open>
  \<open>consumed D args options options'\<close>: the loop reads all of \<open>args\<close> without returning
  and takes \<open>options\<close> to \<open>options'\<close>. It is the relation the loop computes when it runs
  to its end (\<open>parse_loop_Completed_iff\<close> below); properties of a completed parse are
  proved by induction over it.
\<close>

inductive consumed :: "'d double_ops \<Rightarrow> string list \<Rightarrow> 'd CLIOptions \<Rightarrow> 'd CLIOptions \<Rightarrow> bool"
  for D :: "'d double_ops" where
  consumed_end: "consumed D [] opts opts"
| consumed_simplify:
    "stoi v = Inr n \<Longrightarrow> 0 < n \<Longrightarrow> consumed D rest (opts\<lparr>simplifyTarget := n\<rparr>) opts' \<Longrightarrow>
     consumed D (''--simplify'' # v # rest) opts opts'"
| consumed_k:
    "stod D v = Inr x \<Longrightarrow> \<not> nonpositive D x \<Longrightarrow> consumed D rest (opts\<lparr>k := x\<rparr>) opts' \<Longrightarrow>
     consumed D (''--k'' # v # rest) opts opts'"
| consumed_output:
    "consumed D rest (opts\<lparr>outputPrefix := v\<rparr>) opts' \<Longrightarrow>
     consumed D (''--output'' # v # rest) opts opts'"
| consumed_input:
    "\<not> (arg \<noteq> [] \<and> hd arg = CHR ''-'') \<Longrightarrow> inputFile opts = [] \<Longrightarrow>
     consumed D rest (opts\<lparr>inputFile := arg\<rparr>) opts' \<Longrightarrow>
     consumed D (arg # rest) opts opts'"

subsection \<open>main\<close>

text \<open>
  The mesh classes (\<open>ThreeDimensionalShape\<close>, its input mesh, \<open>input_nmm\<close> and
  \<open>slab_mesh\<close>) are not part of these two files, so the whole \<open>shape\<close> object is an
  abstract state of type \<open>'s\<close> and every statement of \<open>main\<close> that reads, computes
  or writes through it is a \<open>call\<close>, in the order of the source:
  \<^item> \<open>ReadMesh f\<close>: \<open>stream >> shape.input\<close> on the opened file \<open>f\<close> (its success is
    not tested by \<open>main\<close>);
  \<^item> \<open>CreateDomain f prefix\<close>: the second read of \<open>f\<close> into a \<open>Polyhedron\<close>, the new
    \<open>Mesh_domain\<close>, and the assignments of \<open>domain\<close>, \<open>pmesh\<close> and
    \<open>meshname = prefix\<close>;
  \<^item> \<open>ComputeInputNMM\<close>: computes the medial axis and exports it as \<open>prefix.ma\<close>;
  \<^item> \<open>SetupSlabMesh k\<close>: the assignments to the \<open>slab_mesh\<close> settings (\<open>type = 1\<close>,
    \<open>k\<close>, \<open>bound_weight = 1.0\<close>, \<open>preserve_boundary_method = 0\<close>,
    \<open>hyperbolic_weight_type = 3\<close>, \<open>compute_hausdorff = false\<close>,
    \<open>boundary_compute_scale = 0\<close>, \<open>prevent_inversion = false\<close>);
  \<^item> the others are the member functions of the same names.
\<close>

datatype 'd call =
    ReadMesh string
  | Computebb
  | GenerateList
  | GenerateRandomColor
  | Compute_normals
  | CreateDomain string string
  | Computedt
  | ComputeInputNMM
  | SetupSlabMesh 'd
  | LoadInputNMM string
  | LoadSlabMesh
  | CleanIsolatedVertices
  | Simplify int
  | ComputeFacesNormal
  | ComputeVerticesNormal
  | ComputeEdgesCone
  | ComputeFacesSimpleTriangles
  | Export string

text \<open>
  The collaborators of \<open>main\<close>: what each call does to the shape, the field
  \<open>slab_mesh.numVertices\<close>, and whether \<open>std::ifstream\<close> can open a file when the
  program starts. Calls are taken to return; a crash inside one is outside the model.
\<close>

record ('s, 'd) collaborators =
  exec :: "'d call \<Rightarrow> 's \<Rightarrow> 's"
  numVertices :: "'s \<Rightarrow> int"
  can_open :: "string \<Rightarrow> bool"

text \<open>
  Of the text written to standard output only the usage text and the warning that
  simplification is skipped are kept (the banner, the progress lines and the timings of
  \<open>clock()\<close> are left out); standard error is kept line by line.
\<close>

datatype message = Usage string | SkipWarning int int

record ('s, 'd) world =
  shape :: 's
  calls :: "'d call list"
  cout :: "message list"
  cerr :: "string list"

definition call_op :: "('s, 'd) collaborators \<Rightarrow> ('s, 'd) world \<Rightarrow> 'd call \<Rightarrow> ('s, 'd) world" where
  "call_op E w c = w\<lparr>shape := exec E c (shape w), calls := calls w @ [c]\<rparr>"

definition run_calls :: "('s, 'd) collaborators \<Rightarrow> 'd call list \<Rightarrow> ('s, 'd) world \<Rightarrow> ('s, 'd) world" where
  "run_calls E cs w = foldl (call_op E) w cs"

text \<open>Steps 1 to 3 of \<open>main\<close>: load the mesh, create the domain, compute the medial axis.\<close>

definition load_calls :: "'d CLIOptions \<Rightarrow> 'd call list" where
  "load_calls options =
     [ReadMesh (inputFile options), Computebb, GenerateList, GenerateRandomColor,
      Compute_normals, CreateDomain (inputFile options) (outputPrefix options),
      Computedt, ComputeInputNMM]"

text \<open>Step 4 up to the vertex count: settings, reload of the exported axis, initialisation.\<close>

definition slab_calls :: "'d CLIOptions \<Rightarrow> 'd call list" where
  "slab_calls options =
     [SetupSlabMesh (k options), LoadInputNMM (outputPrefix options @ ''.ma''), LoadSlabMesh]"

definition simplify_calls :: "'d CLIOptions \<Rightarrow> int \<Rightarrow> 'd call list" where
  "simplify_calls options reductionCount =
     [CleanIsolatedVertices, Simplify reductionCount,
      ComputeFacesNormal, ComputeVerticesNormal, ComputeEdgesCone,
      ComputeFacesSimpleTriangles, Export (outputPrefix options)]"

text \<open>The \<open>// Simplify\<close> block of \<open>main\<close>, entered with the slab mesh loaded.\<close>

definition simplify_block ::
  "('s, 'd) collaborators \<Rightarrow> 'd CLIOptions \<Rightarrow> ('s, 'd) world \<Rightarrow> ('s, 'd) world" where
  "simplify_block E options w =
     (let currentVertices = numVertices E (shape w) in
      if simplifyTarget options \<ge> currentVertices then
        w\<lparr>cout := cout w @ [SkipWarning (simplifyTarget options) currentVertices]\<rparr>
      else
        let reductionCount = currentVertices - simplifyTarget options
        in run_calls E (simplify_calls options reductionCount) w)"

definition start :: "'s \<Rightarrow> ('s, 'd) world" where
  "start s = \<lparr>shape = s, calls = [], cout = [], cerr = []\<rparr>"

text \<open>\<open>main\<close> returns the exit status and leaves the world behind.\<close>

definition main ::
  "('s, 'd) collaborators \<Rightarrow> 'd double_ops \<Rightarrow> string list \<Rightarrow> 's \<Rightarrow> int \<times> ('s, 'd) world" where
  "main E D argv s =
     (let options = parseArguments D argv in
      if showHelp options then (0, (start s)\<lparr>cout := [Usage (hd argv)]\<rparr>)
      else if \<not> valid options then
        (1, (start s)\<lparr>cerr := [''Error: '' @ errorMessage options,
                                ''Use --help for usage information.'']\<rparr>)
      else if \<not> can_open E (inputFile options) then
        (1, (start s)\<lparr>cerr := [''Error: Could not open file '' @ inputFile options]\<rparr>)
      else
        let w = run_calls E (load_calls options) (start s) in
        if simplifyTarget options > 0 then
          (0, simplify_block E options (run_calls E (slab_calls options) w))
        else (0, w))"

text \<open>
  The calls that belong to simplification proper: the cleanup, the collapse loop, the four
  recomputations after it, and the export of the simplified mesh.
\<close>

fun simplification_call :: "'d call \<Rightarrow> bool" where
  "simplification_call CleanIsolatedVertices = True"
| "simplification_call (Simplify n) = True"
| "simplification_call ComputeFacesNormal = True"
| "simplification_call ComputeVerticesNormal = True"
| "simplification_call ComputeEdgesCone = True"
| "simplification_call ComputeFacesSimpleTriangles = True"
| "simplification_call (Export prefix) = True"
| "simplification_call c = False"

section \<open>Concrete instances\<close>

text \<open>
  Stand-ins on which the theorems below are evaluated. \<open>integer_doubles\<close> reads a
  \<open>double\<close> as an integer literal. The shape of \<open>counting_collaborators\<close> is just its
  number of vertices: loading the exported axis gives 10 of them, \<open>Simplify r\<close> takes
  \<open>r\<close> away, and only the file \<open>bunny.off\<close> exists.
\<close>

definition integer_doubles :: "int double_ops" where
  "integer_doubles = \<lparr>stod = stoi, nonpositive = (\<lambda>x. x \<le> 0), default_k = 1\<rparr>"

definition counting_collaborators :: "(int, int) collaborators" where
  "counting_collaborators =
     \<lparr>exec = (\<lambda>c n. case c of LoadInputNMM f \<Rightarrow> 10 | Simplify r \<Rightarrow> n - r | _ \<Rightarrow> n),
      numVertices = (\<lambda>n. n),
      can_open = (\<lambda>f. f = ''bunny.off'')\<rparr>"

definition bunny_args :: "string \<Rightarrow> string list" where
  "bunny_args n = [''qmat_cli'', ''bunny.off'', ''--simplify'', n]"


text \<open>
  Four outcomes of the OBJ library: a single triangle, a file without vertices, a file
  with vertices but no face, and a file the library cannot open. \<open>data_as_mesh\<close> is a
  polyhedron that is just the parsed data, always valid, and closed only from four faces
  on.
\<close>

definition triangle_obj :: "string \<Rightarrow> string option \<Rightarrow> int LoadObj_result" where
  "triangle_obj filename basedir =
     \<lparr>ret = True, err = [], attrib_vertices = [0, 0, 0, 1, 0, 0, 0, 1, 0],
      shapes = [\<lparr>indices = [0, 1, 2], num_face_vertices = [3]\<rparr>]\<rparr>"




definition data_as_mesh :: "(int, int ObjData) polyhedron_ops" where
  "data_as_mesh =
     \<lparr>delegate = (\<lambda>data m. Built data),
      is_valid = (\<lambda>m. True),
      is_closed = (\<lambda>m. 4 \<le> length (faces m))\<rparr>"

section \<open>Properties of the string functions\<close>

lemma size_sub_small: "b \<le> a \<Longrightarrow> int a < size_limit \<Longrightarrow> size_sub a b = a - b"
proof -
  assume le: "b \<le> a" and small: "int a < size_limit"
  have eq: "int a - int b = int (a - b)" using le by simp
  have "0 \<le> int (a - b)" by simp
  moreover have "int (a - b) < size_limit" using small by simp
  ultimately have "int (a - b) mod size_limit = int (a - b)" by (rule mod_pos_pos_trivial)
  then show ?thesis by (simp only: size_sub_def eq nat_int)
qed

lemma rfind_char_from_absent:
  "c \<notin> set s \<Longrightarrow> i < length s \<Longrightarrow> rfind_char_from s c i = None"
  by (induction i) auto

lemma rfind_char_absent: "c \<notin> set s \<Longrightarrow> rfind_char s c = None"
  by (cases "s = []") (simp_all add: rfind_char_def rfind_char_from_absent)

lemma rfind_char_from_hit: "s ! i = c \<Longrightarrow> rfind_char_from s c i = Some i"
  by (cases i) simp_all

lemma rfind_char_from_last:
  "c \<notin> set e \<Longrightarrow> j \<le> length e \<Longrightarrow>
   rfind_char_from (p @ c # e) c (length p + j) = Some (length p)"
proof (induction j)
  case 0
  have "(p @ c # e) ! length p = c" by simp
  then show ?case using rfind_char_from_hit [of "p @ c # e" "length p" c] by simp
next
  case (Suc j)
  have "(p @ c # e) ! (length p + Suc j) = e ! j"
    by (simp add: nth_append)
  moreover have "e ! j \<in> set e" using Suc.prems by simp
  ultimately have "(p @ c # e) ! Suc (length p + j) \<noteq> c" using Suc.prems by auto
  then show ?case using Suc by simp
qed

lemma rfind_char_last:
  "c \<notin> set e \<Longrightarrow> rfind_char (p @ c # e) c = Some (length p)"
  using rfind_char_from_last [of c e "length e" p] by (simp add: rfind_char_def)

lemma GetFileExtension_no_dot:
  "CHR ''.'' \<notin> set f \<Longrightarrow> GetFileExtension f = []"
  by (simp add: GetFileExtension_def rfind_char_absent)

lemma GetFileExtension_last_dot:
  assumes "CHR ''.'' \<notin> set e" and "int (length (p @ CHR ''.'' # e)) < size_limit"
  shows "GetFileExtension (p @ CHR ''.'' # e) = map tolower e"
proof -
  have "size_sub (length (p @ CHR ''.'' # e)) 1 = length p + length e"
    using size_sub_small [of 1 "length (p @ CHR ''.'' # e)"] assms(2) by simp
  then show ?thesis
    using rfind_char_last [OF assms(1), of p]
    by (auto simp add: GetFileExtension_def)
qed

lemma GetFileExtension_eq_nonempty:
  assumes "int (length f) < size_limit" and "GetFileExtension f = x" and "x \<noteq> []"
  shows "\<exists>p e. f = p @ CHR ''.'' # e \<and> CHR ''.'' \<notin> set e \<and> map tolower e = x"
proof -
  have "CHR ''.'' \<in> set f"
  proof (rule ccontr)
    assume "CHR ''.'' \<notin> set f"
    then have "GetFileExtension f = []" by (rule GetFileExtension_no_dot)
    then show False using assms(2,3) by simp
  qed
  then have "\<exists>p e. f = p @ CHR ''.'' # e \<and> CHR ''.'' \<notin> set e"
    by (rule split_list_last)
  then obtain p e where split: "f = p @ CHR ''.'' # e" and last: "CHR ''.'' \<notin> set e"
    by (elim exE conjE)
  have "int (length (p @ CHR ''.'' # e)) < size_limit" using assms(1) split by simp
  then have "GetFileExtension (p @ CHR ''.'' # e) = map tolower e"
    using last by (rule GetFileExtension_last_dot [rotated])
  then have "map tolower e = x" using assms(2) split by simp
  then show ?thesis using split last by (intro exI conjI)
qed

lemma GetFileExtension_eq_iff:
  assumes "int (length f) < size_limit" and "x \<noteq> []"
  shows "GetFileExtension f = x \<longleftrightarrow>
         (\<exists>p e. f = p @ CHR ''.'' # e \<and> CHR ''.'' \<notin> set e \<and> map tolower e = x)"
proof
  assume "GetFileExtension f = x"
  then show "\<exists>p e. f = p @ CHR ''.'' # e \<and> CHR ''.'' \<notin> set e \<and> map tolower e = x"
    by (rule GetFileExtension_eq_nonempty [OF assms(1) _ assms(2)])
next
  assume "\<exists>p e. f = p @ CHR ''.'' # e \<and> CHR ''.'' \<notin> set e \<and> map tolower e = x"
  then obtain p e where split: "f = p @ CHR ''.'' # e" and last: "CHR ''.'' \<notin> set e"
    and low: "map tolower e = x"
    by (elim exE conjE)
  have "int (length (p @ CHR ''.'' # e)) < size_limit" using assms(1) unfolding split .
  with last have "GetFileExtension (p @ CHR ''.'' # e) = map tolower e"
    by (rule GetFileExtension_last_dot)
  then show "GetFileExtension f = x" unfolding split low .
qed

lemma tolower_o: "tolower c = CHR ''o'' \<longleftrightarrow> c = CHR ''o'' \<or> c = CHR ''O''"
  by (auto simp add: tolower_def split: if_splits)
lemma tolower_b: "tolower c = CHR ''b'' \<longleftrightarrow> c = CHR ''b'' \<or> c = CHR ''B''"
  by (auto simp add: tolower_def split: if_splits)
lemma tolower_j: "tolower c = CHR ''j'' \<longleftrightarrow> c = CHR ''j'' \<or> c = CHR ''J''"
  by (auto simp add: tolower_def split: if_splits)
lemma tolower_f: "tolower c = CHR ''f'' \<longleftrightarrow> c = CHR ''f'' \<or> c = CHR ''F''"
  by (auto simp add: tolower_def split: if_splits)

lemma map_tolower_obj:
  "map tolower e = ''obj'' \<longleftrightarrow>
   (\<exists>a b c. e = [a, b, c] \<and> (a = CHR ''o'' \<or> a = CHR ''O'') \<and> (b = CHR ''b'' \<or> b = CHR ''B'')
      \<and> (c = CHR ''j'' \<or> c = CHR ''J''))"
proof
  assume m: "map tolower e = ''obj''"
  then have "length e = 3" using length_map [of tolower e] by simp
  then obtain a b c where e: "e = [a, b, c]"
    by (metis length_0_conv length_Suc_conv numeral_3_eq_3)
  from m have "tolower a = CHR ''o''" "tolower b = CHR ''b''" "tolower c = CHR ''j''"
    unfolding e by simp_all
  then show "\<exists>a b c. e = [a, b, c] \<and> (a = CHR ''o'' \<or> a = CHR ''O'') \<and> (b = CHR ''b'' \<or> b = CHR ''B'')
      \<and> (c = CHR ''j'' \<or> c = CHR ''J'')"
    unfolding tolower_o tolower_b tolower_j using e by blast
next
  assume "\<exists>a b c. e = [a, b, c] \<and> (a = CHR ''o'' \<or> a = CHR ''O'') \<and> (b = CHR ''b'' \<or> b = CHR ''B'')
      \<and> (c = CHR ''j'' \<or> c = CHR ''J'')"
  then obtain a b c where e: "e = [a, b, c]" and "tolower a = CHR ''o''"
    "tolower b = CHR ''b''" "tolower c = CHR ''j''"
    unfolding tolower_o tolower_b tolower_j by blast
  then show "map tolower e = ''obj''" by simp
qed

lemma map_tolower_off:
  "map tolower e = ''off'' \<longleftrightarrow>
   (\<exists>a b c. e = [a, b, c] \<and> (a = CHR ''o'' \<or> a = CHR ''O'') \<and> (b = CHR ''f'' \<or> b = CHR ''F'')
      \<and> (c = CHR ''f'' \<or> c = CHR ''F''))"
proof
  assume m: "map tolower e = ''off''"
  then have "length e = 3" using length_map [of tolower e] by simp
  then obtain a b c where e: "e = [a, b, c]"
    by (metis length_0_conv length_Suc_conv numeral_3_eq_3)
  from m have "tolower a = CHR ''o''" "tolower b = CHR ''f''" "tolower c = CHR ''f''"
    unfolding e by simp_all
  then show "\<exists>a b c. e = [a, b, c] \<and> (a = CHR ''o'' \<or> a = CHR ''O'') \<and> (b = CHR ''f'' \<or> b = CHR ''F'')
      \<and> (c = CHR ''f'' \<or> c = CHR ''F'')"
    unfolding tolower_o tolower_f using e by blast
next
  assume "\<exists>a b c. e = [a, b, c] \<and> (a = CHR ''o'' \<or> a = CHR ''O'') \<and> (b = CHR ''f'' \<or> b = CHR ''F'')
      \<and> (c = CHR ''f'' \<or> c = CHR ''F'')"
  then obtain a b c where e: "e = [a, b, c]" and "tolower a = CHR ''o''"
    "tolower b = CHR ''f''" "tolower c = CHR ''f''"
    unfolding tolower_o tolower_f by blast
  then show "map tolower e = ''off''" by simp
qed

text \<open>
  Claim C9. For every file name (of a length a \<open>size_t\<close> can hold), \<open>GetFileExtension\<close>
  returns the empty string when the name has no dot or ends with a dot, and otherwise the
  characters after the last dot, each one lower-cased. Hence \<open>IsObjFile\<close> and
  \<open>IsOffFile\<close> hold exactly when the characters after the last dot lower-case to
  \<open>obj\<close> and \<open>off\<close>, that is, when they spell the extension in any mix of upper
  and lower case.
\<close>

theorem GetFileExtension_lowercased_suffix:
  assumes "int (length f) < size_limit"
  shows "(CHR ''.'' \<notin> set f \<longrightarrow> GetFileExtension f = [])
       \<and> (\<forall>p. f = p @ ''.'' \<longrightarrow> GetFileExtension f = [])
       \<and> (\<forall>p e. f = p @ CHR ''.'' # e \<and> CHR ''.'' \<notin> set e \<longrightarrow>
              GetFileExtension f = map tolower e)
       \<and> (IsObjFile f \<longleftrightarrow>
              (\<exists>p e. f = p @ CHR ''.'' # e \<and> CHR ''.'' \<notin> set e \<and> map tolower e = ''obj''))
       \<and> (IsOffFile f \<longleftrightarrow>
              (\<exists>p e. f = p @ CHR ''.'' # e \<and> CHR ''.'' \<notin> set e \<and> map tolower e = ''off''))
       \<and> (\<forall>e. map tolower e = ''obj'' \<longleftrightarrow>
              (\<exists>a b c. e = [a, b, c] \<and> (a = CHR ''o'' \<or> a = CHR ''O'')
                 \<and> (b = CHR ''b'' \<or> b = CHR ''B'') \<and> (c = CHR ''j'' \<or> c = CHR ''J'')))
       \<and> (\<forall>e. map tolower e = ''off'' \<longleftrightarrow>
              (\<exists>a b c. e = [a, b, c] \<and> (a = CHR ''o'' \<or> a = CHR ''O'')
                 \<and> (b = CHR ''f'' \<or> b = CHR ''F'') \<and> (c = CHR ''f'' \<or> c = CHR ''F'')))"
proof (intro conjI allI impI)
  assume "CHR ''.'' \<notin> set f"
  then show "GetFileExtension f = []" by (rule GetFileExtension_no_dot)
next
  fix p assume f: "f = p @ ''.''"
  have "CHR ''.'' \<notin> set []" by simp
  moreover have "int (length (p @ CHR ''.'' # [])) < size_limit" using assms unfolding f .
  ultimately have "GetFileExtension (p @ CHR ''.'' # []) = map tolower []"
    by (rule GetFileExtension_last_dot)
  then have "GetFileExtension (p @ ''.'') = []" by simp
  then show "GetFileExtension f = []" unfolding f .
next
  fix p e assume both: "f = p @ CHR ''.'' # e \<and> CHR ''.'' \<notin> set e"
  from both have f: "f = p @ CHR ''.'' # e" by (rule conjunct1)
  from both have last: "CHR ''.'' \<notin> set e" by (rule conjunct2)
  have "int (length (p @ CHR ''.'' # e)) < size_limit" using assms unfolding f .
  with last have "GetFileExtension (p @ CHR ''.'' # e) = map tolower e"
    by (rule GetFileExtension_last_dot)
  then show "GetFileExtension f = map tolower e" unfolding f .
next
  have "''obj'' \<noteq> []" by simp
  with assms show "IsObjFile f \<longleftrightarrow>
      (\<exists>p e. f = p @ CHR ''.'' # e \<and> CHR ''.'' \<notin> set e \<and> map tolower e = ''obj'')"
    unfolding IsObjFile_def by (rule GetFileExtension_eq_iff)
next
  have "''off'' \<noteq> []" by simp
  with assms show "IsOffFile f \<longleftrightarrow>
      (\<exists>p e. f = p @ CHR ''.'' # e \<and> CHR ''.'' \<notin> set e \<and> map tolower e = ''off'')"
    unfolding IsOffFile_def by (rule GetFileExtension_eq_iff)
next
  fix e
  show "map tolower e = ''obj'' \<longleftrightarrow>
      (\<exists>a b c. e = [a, b, c] \<and> (a = CHR ''o'' \<or> a = CHR ''O'')
         \<and> (b = CHR ''b'' \<or> b = CHR ''B'') \<and> (c = CHR ''j'' \<or> c = CHR ''J''))"
    by (rule map_tolower_obj)
next
  fix e
  show "map tolower e = ''off'' \<longleftrightarrow>
      (\<exists>a b c. e = [a, b, c] \<and> (a = CHR ''o'' \<or> a = CHR ''O'')
         \<and> (b = CHR ''f'' \<or> b = CHR ''F'') \<and> (c = CHR ''f'' \<or> c = CHR ''F''))"
    by (rule map_tolower_off)
qed

theorem GetFileExtension_lowercased_suffix_witness:
  "int (length ''dir.v2/Mesh.OBJ'') < size_limit
   \<and> GetFileExtension ''dir.v2/Mesh.OBJ'' = ''obj''
   \<and> IsObjFile ''dir.v2/Mesh.OBJ''"
proof -
  have small: "int (length ''dir.v2/Mesh.OBJ'') < size_limit" by (simp add: size_limit_def)
  have split: "''dir.v2/Mesh.OBJ'' = ''dir.v2/Mesh'' @ CHR ''.'' # ''OBJ'' \<and> CHR ''.'' \<notin> set ''OBJ''"
    by simp
  have low: "map tolower ''OBJ'' = ''obj''" by (simp add: tolower_def)
  note spec = GetFileExtension_lowercased_suffix [OF small]
  from spec have "\<forall>p e. ''dir.v2/Mesh.OBJ'' = p @ CHR ''.'' # e \<and> CHR ''.'' \<notin> set e \<longrightarrow>
      GetFileExtension ''dir.v2/Mesh.OBJ'' = map tolower e"
    by (elim conjE)
  then have ext: "GetFileExtension ''dir.v2/Mesh.OBJ'' = map tolower ''OBJ''"
    using split by (elim allE impE)
  from spec have "IsObjFile ''dir.v2/Mesh.OBJ'' \<longleftrightarrow>
      (\<exists>p e. ''dir.v2/Mesh.OBJ'' = p @ CHR ''.'' # e \<and> CHR ''.'' \<notin> set e \<and> map tolower e = ''obj'')"
    by (elim conjE)
  moreover have "\<exists>p e. ''dir.v2/Mesh.OBJ'' = p @ CHR ''.'' # e \<and> CHR ''.'' \<notin> set e \<and> map tolower e = ''obj''"
    using split low by (intro exI [of _ "''dir.v2/Mesh''"] exI [of _ "''OBJ''"]) simp
  ultimately have obj: "IsObjFile ''dir.v2/Mesh.OBJ''" by (rule iffD2)
  from ext low have "GetFileExtension ''dir.v2/Mesh.OBJ'' = ''obj''" by (rule trans)
  with small show ?thesis using obj by (intro conjI)
qed

section \<open>Properties of parseArguments\<close>

lemma parse_loop_consumed:
  "parse_loop D xs opts = Completed opts' \<Longrightarrow> consumed D xs opts opts'"
proof (induction xs arbitrary: opts rule: length_induct)
  case (1 xs)
  note IH = "1.IH" [rule_format] and completed = "1.prems"
  show ?case
  proof (cases xs)
    case Nil
    with completed have "opts' = opts" by simp
    then show ?thesis using Nil by (simp add: consumed_end)
  next
    case (Cons arg rest)
    consider (is_help) "arg = ''--help'' \<or> arg = ''-h''"
      | (is_simplify) "arg = ''--simplify''"
      | (is_k) "arg = ''--k''"
      | (is_output) "arg = ''--output''"
      | (is_other) "arg \<noteq> ''--help''" "arg \<noteq> ''-h''" "arg \<noteq> ''--simplify''"
                "arg \<noteq> ''--k''" "arg \<noteq> ''--output''"
      by blast
    then show ?thesis
    proof cases
      case is_help
      with is_help have "parse_loop D (arg # rest) opts = Return (opts\<lparr>showHelp := True\<rparr>)" by simp
      with completed Cons show ?thesis by simp
    next
      case is_simplify
      show ?thesis
      proof (cases rest)
        case Nil
        with completed Cons is_simplify show ?thesis by simp
      next
        case (Cons v rest')
        note rest = Cons
        show ?thesis
        proof (cases "stoi v")
          case (Inl e)
          with completed \<open>xs = arg # rest\<close> is_simplify rest show ?thesis by simp
        next
          case (Inr n)
          show ?thesis
          proof (cases "n \<le> 0")
            case True
            with completed \<open>xs = arg # rest\<close> is_simplify rest Inr show ?thesis by simp
          next
            case False
            with completed \<open>xs = arg # rest\<close> is_simplify rest Inr
            have "parse_loop D rest' (opts\<lparr>simplifyTarget := n\<rparr>) = Completed opts'" by simp
            moreover have "length rest' < length xs" using \<open>xs = arg # rest\<close> rest by simp
            ultimately have "consumed D rest' (opts\<lparr>simplifyTarget := n\<rparr>) opts'"
              by (rule IH [rotated])
            with Inr False show ?thesis
              unfolding \<open>xs = arg # rest\<close> is_simplify rest by (intro consumed_simplify) simp_all
          qed
        qed
      qed
    next
      case is_k
      show ?thesis
      proof (cases rest)
        case Nil
        with completed Cons is_k show ?thesis by simp
      next
        case (Cons v rest')
        note rest = Cons
        show ?thesis
        proof (cases "stod D v")
          case (Inl e)
          with completed \<open>xs = arg # rest\<close> is_k rest show ?thesis by simp
        next
          case (Inr x)
          show ?thesis
          proof (cases "nonpositive D x")
            case True
            with completed \<open>xs = arg # rest\<close> is_k rest Inr show ?thesis by simp
          next
            case False
            with completed \<open>xs = arg # rest\<close> is_k rest Inr
            have "parse_loop D rest' (opts\<lparr>k := x\<rparr>) = Completed opts'" by simp
            moreover have "length rest' < length xs" using \<open>xs = arg # rest\<close> rest by simp
            ultimately have "consumed D rest' (opts\<lparr>k := x\<rparr>) opts'"
              by (rule IH [rotated])
            with Inr False show ?thesis
              unfolding \<open>xs = arg # rest\<close> is_k rest by (intro consumed_k)
          qed
        qed
      qed
    next
      case is_output
      show ?thesis
      proof (cases rest)
        case Nil
        with completed Cons is_output show ?thesis by simp
      next
        case (Cons v rest')
        note rest = Cons
        from completed \<open>xs = arg # rest\<close> is_output rest
        have "parse_loop D rest' (opts\<lparr>outputPrefix := v\<rparr>) = Completed opts'" by simp
        moreover have "length rest' < length xs" using \<open>xs = arg # rest\<close> rest by simp
        ultimately have "consumed D rest' (opts\<lparr>outputPrefix := v\<rparr>) opts'"
          by (rule IH [rotated])
        then show ?thesis
          unfolding \<open>xs = arg # rest\<close> is_output rest by (rule consumed_output)
      qed
    next
      case is_other
      show ?thesis
      proof (cases "arg \<noteq> [] \<and> hd arg = CHR ''-''")
        case True
        with completed Cons is_other show ?thesis by simp
      next
        case False
        note positional = False
        show ?thesis
        proof (cases "inputFile opts = []")
          case False
          with completed Cons is_other positional show ?thesis by simp
        next
          case True
          with completed Cons is_other positional
          have "parse_loop D rest (opts\<lparr>inputFile := arg\<rparr>) = Completed opts'" by simp
          moreover have "length rest < length xs" using Cons by simp
          ultimately have "consumed D rest (opts\<lparr>inputFile := arg\<rparr>) opts'"
            by (rule IH [rotated])
          with positional True show ?thesis
            unfolding Cons by (intro consumed_input) simp_all
        qed
      qed
    qed
  qed
qed

lemma consumed_flags:
  "consumed D xs opts opts' \<Longrightarrow>
   showHelp opts' = showHelp opts \<and> valid opts' = valid opts \<and> errorMessage opts' = errorMessage opts"
  by (induction rule: consumed.induct) simp_all

lemma consumed_no_output:
  "consumed D xs opts opts' \<Longrightarrow> ''--output'' \<notin> set xs \<Longrightarrow> outputPrefix opts' = outputPrefix opts"
  by (induction rule: consumed.induct) simp_all

lemma consumed_target:
  "consumed D xs opts opts' \<Longrightarrow> simplifyTarget opts' = simplifyTarget opts \<or> 0 < simplifyTarget opts'"
  by (induction rule: consumed.induct) auto

lemma consumed_parse_loop:
  "consumed D xs opts opts' \<Longrightarrow> parse_loop D (xs @ rest) opts = parse_loop D rest opts'"
proof (induction rule: consumed.induct)
  case (consumed_end opts)
  show ?case by simp
next
  case (consumed_simplify v n rest0 opts opts')
  then show ?case by simp
next
  case (consumed_k v x rest0 opts opts')
  then show ?case by simp
next
  case (consumed_output rest0 opts v opts')
  then show ?case by simp
next
  case (consumed_input arg opts rest0 opts')
  have "arg \<noteq> ''--help''" "arg \<noteq> ''-h''" "arg \<noteq> ''--simplify''" "arg \<noteq> ''--k''"
    "arg \<noteq> ''--output''"
    using consumed_input.hyps(1) by auto
  then show ?case using consumed_input by (cases "arg = []") simp_all
qed

lemma parse_loop_Completed_iff:
  "parse_loop D xs opts = Completed opts' \<longleftrightarrow> consumed D xs opts opts'"
  using parse_loop_consumed [of D xs opts opts'] consumed_parse_loop [of D xs opts opts' "[]"]
  by auto

lemma parse_loop_Return_flags:
  "parse_loop D xs opts = Return opts' \<Longrightarrow> showHelp opts' \<or> \<not> valid opts'"
  by (induction D xs opts rule: parse_loop.induct)
     (auto split: list.splits sum.splits if_splits)

lemma rfind_from_hit:
  "take (length pat) (drop i s) = pat \<Longrightarrow> rfind_from s pat i = Some i"
  by (cases i) simp_all

lemma rfind_from_Some:
  "rfind_from s pat i = Some d \<Longrightarrow> d \<le> i \<and> take (length pat) (drop d s) = pat"
proof (induction i)
  case 0
  then show ?case by (simp split: if_splits)
next
  case (Suc i)
  show ?case
  proof (cases "take (length pat) (drop (Suc i) s) = pat")
    case True
    with Suc.prems show ?thesis by simp
  next
    case False
    with Suc.prems have "rfind_from s pat i = Some d" by simp
    then have "d \<le> i \<and> take (length pat) (drop d s) = pat" by (rule Suc.IH)
    then show ?thesis by simp
  qed
qed

lemma rfind_suffix: "rfind (p @ pat) pat = Some (length p)"
proof -
  have "take (length pat) (drop (length p) (p @ pat)) = pat" by simp
  then have "rfind_from (p @ pat) pat (length p) = Some (length p)" by (rule rfind_from_hit)
  then show ?thesis by (simp add: rfind_def)
qed

lemma rfind_Some:
  assumes "rfind s pat = Some d"
  shows "length pat \<le> length s \<and> d \<le> length s - length pat \<and> take (length pat) (drop d s) = pat"
proof -
  have fits: "length pat \<le> length s"
    using assms by (simp add: rfind_def split: if_splits)
  then have "rfind_from s pat (length s - length pat) = Some d"
    using assms by (simp add: rfind_def)
  then have "d \<le> length s - length pat \<and> take (length pat) (drop d s) = pat"
    by (rule rfind_from_Some)
  with fits show ?thesis by simp
qed

lemma default_prefix_suffix:
  assumes "int (length (p @ ''.off'')) < size_limit"
  shows "default_prefix (p @ ''.off'') = p"
proof -
  have "size_sub (length (p @ ''.off'')) 4 = length (p @ ''.off'') - 4"
    using assms by (intro size_sub_small) simp_all
  then have "size_sub (length (p @ ''.off'')) 4 = length p" by simp
  moreover have "rfind (p @ ''.off'') ''.off'' = Some (length p)" by (rule rfind_suffix)
  ultimately show ?thesis by (simp add: default_prefix_def)
qed

lemma default_prefix_other:
  assumes small: "int (length f) < size_limit" and other: "\<not> (\<exists>p. f = p @ ''.off'')"
  shows "default_prefix f = f"
proof (cases "rfind f ''.off''")
  case None
  then show ?thesis by (simp add: default_prefix_def)
next
  case (Some dotPos)
  have l4: "length ''.off'' = 4" by simp
  have found: "4 \<le> length f \<and> dotPos \<le> length f - 4 \<and> take 4 (drop dotPos f) = ''.off''"
    using rfind_Some [OF Some] unfolding l4 .
  then have four: "4 \<le> length f" by (rule conjunct1)
  then have sub: "size_sub (length f) 4 = length f - 4"
    using small by (rule size_sub_small)
  have "dotPos \<noteq> length f - 4"
  proof
    assume at_end: "dotPos = length f - 4"
    have "length (drop dotPos f) = 4" using at_end four by simp
    then have "take 4 (drop dotPos f) = drop dotPos f" by simp
    moreover have "take 4 (drop dotPos f) = ''.off''" using found by blast
    ultimately have "drop dotPos f = ''.off''" by simp
    then have "f = take dotPos f @ ''.off''"
      using append_take_drop_id [of dotPos f] by simp
    with other show False by blast
  qed
  with Some sub show ?thesis by (simp add: default_prefix_def)
qed

lemma parseArguments_valid:
  assumes "valid (parseArguments D argv)" and "\<not> showHelp (parseArguments D argv)"
  shows "\<exists>opts. consumed D (tl argv) (initial_options D) opts \<and> inputFile opts \<noteq> []
           \<and> parseArguments D argv =
               (if outputPrefix opts = []
                then opts\<lparr>outputPrefix := default_prefix (inputFile opts)\<rparr> else opts)"
proof (cases "length argv < 2")
  case True
  then have "\<not> valid (parseArguments D argv)" by (simp add: parseArguments_def)
  with assms(1) show ?thesis by simp
next
  case False
  note long = False
  show ?thesis
  proof (cases "parse_loop D (tl argv) (initial_options D)")
    case (Return opts)
    then have "showHelp opts \<or> \<not> valid opts" by (rule parse_loop_Return_flags)
    moreover have "parseArguments D argv = opts"
      using long Return by (simp add: parseArguments_def)
    ultimately show ?thesis using assms by simp
  next
    case (Completed opts)
    then have run: "consumed D (tl argv) (initial_options D) opts" by (rule parse_loop_consumed)
    show ?thesis
    proof (cases "inputFile opts = []")
      case True
      then have "\<not> valid (parseArguments D argv)"
        using long Completed by (simp add: parseArguments_def)
      with assms(1) show ?thesis by simp
    next
      case False
      then have "parseArguments D argv =
          (if outputPrefix opts = []
           then opts\<lparr>outputPrefix := default_prefix (inputFile opts)\<rparr> else opts)"
        using long Completed by (simp add: parseArguments_def)
      with run False show ?thesis by blast
    qed
  qed
qed

lemma parseArguments_default_prefix:
  assumes "valid (parseArguments D argv)" and "\<not> showHelp (parseArguments D argv)"
    and "''--output'' \<notin> set (tl argv)"
  shows "outputPrefix (parseArguments D argv) = default_prefix (inputFile (parseArguments D argv))"
proof -
  from assms(1,2) obtain opts where run: "consumed D (tl argv) (initial_options D) opts"
    and res: "parseArguments D argv =
               (if outputPrefix opts = []
                then opts\<lparr>outputPrefix := default_prefix (inputFile opts)\<rparr> else opts)"
    using parseArguments_valid by blast
  from run assms(3) have "outputPrefix opts = outputPrefix (initial_options D)"
    by (rule consumed_no_output)
  then have "outputPrefix opts = []" by (simp add: initial_options_def)
  with res show ?thesis by simp
qed

lemma parse_loop_Return_prefix:
  "parse_loop D xs opts = Return opts' \<Longrightarrow> ''--output'' \<notin> set xs \<Longrightarrow>
   outputPrefix opts' = outputPrefix opts"
proof (induction xs arbitrary: opts rule: length_induct)
  case (1 xs)
  note IH = "1.IH" [rule_format] and returned = "1.prems"(1) and absent = "1.prems"(2)
  show ?case
  proof (cases xs)
    case Nil
    with returned show ?thesis by simp
  next
    case (Cons arg rest)
    have not_output: "arg \<noteq> ''--output''" using absent Cons by auto
    have absent_rest: "''--output'' \<notin> set rest" using absent Cons by simp
    consider (is_help) "arg = ''--help'' \<or> arg = ''-h''"
      | (is_simplify) "arg = ''--simplify''"
      | (is_k) "arg = ''--k''"
      | (is_other) "arg \<noteq> ''--help''" "arg \<noteq> ''-h''" "arg \<noteq> ''--simplify''"
                "arg \<noteq> ''--k''"
      by blast
    then show ?thesis
    proof cases
      case is_help
      then have "parse_loop D (arg # rest) opts = Return (opts\<lparr>showHelp := True\<rparr>)" by simp
      with returned Cons have "opts' = opts\<lparr>showHelp := True\<rparr>" by simp
      then show ?thesis by simp
    next
      case is_simplify
      show ?thesis
      proof (cases rest)
        case Nil
        with returned Cons is_simplify
        have "opts' = opts\<lparr>valid := False, errorMessage := ''--simplify requires a value.''\<rparr>"
          by simp
        then show ?thesis by simp
      next
        case (Cons v rest')
        note rest = Cons
        show ?thesis
        proof (cases "stoi v")
          case (Inl e)
          with returned \<open>xs = arg # rest\<close> is_simplify rest
          have "opts' = opts\<lparr>valid := False, errorMessage := ''Invalid value for --simplify.''\<rparr>"
            by simp
          then show ?thesis by simp
        next
          case (Inr n)
          show ?thesis
          proof (cases "n \<le> 0")
            case True
            with returned \<open>xs = arg # rest\<close> is_simplify rest Inr
            have "opts' = opts\<lparr>simplifyTarget := n, valid := False,
                errorMessage := ''--simplify value must be positive.''\<rparr>"
              by simp
            then show ?thesis by simp
          next
            case False
            with returned \<open>xs = arg # rest\<close> is_simplify rest Inr
            have "parse_loop D rest' (opts\<lparr>simplifyTarget := n\<rparr>) = Return opts'" by simp
            moreover have "length rest' < length xs" using \<open>xs = arg # rest\<close> rest by simp
            moreover have "''--output'' \<notin> set rest'" using absent_rest rest by simp
            ultimately have "outputPrefix opts' = outputPrefix (opts\<lparr>simplifyTarget := n\<rparr>)"
              using IH by blast
            then show ?thesis by simp
          qed
        qed
      qed
    next
      case is_k
      show ?thesis
      proof (cases rest)
        case Nil
        with returned Cons is_k
        have "opts' = opts\<lparr>valid := False, errorMessage := ''--k requires a value.''\<rparr>"
          by simp
        then show ?thesis by simp
      next
        case (Cons v rest')
        note rest = Cons
        show ?thesis
        proof (cases "stod D v")
          case (Inl e)
          with returned \<open>xs = arg # rest\<close> is_k rest
          have "opts' = opts\<lparr>valid := False, errorMessage := ''Invalid value for --k.''\<rparr>"
            by simp
          then show ?thesis by simp
        next
          case (Inr x)
          show ?thesis
          proof (cases "nonpositive D x")
            case True
            with returned \<open>xs = arg # rest\<close> is_k rest Inr
            have "opts' = opts\<lparr>k := x, valid := False,
                errorMessage := ''--k value must be positive.''\<rparr>"
              by simp
            then show ?thesis by simp
          next
            case False
            with returned \<open>xs = arg # rest\<close> is_k rest Inr
            have "parse_loop D rest' (opts\<lparr>k := x\<rparr>) = Return opts'" by simp
            moreover have "length rest' < length xs" using \<open>xs = arg # rest\<close> rest by simp
            moreover have "''--output'' \<notin> set rest'" using absent_rest rest by simp
            ultimately have "outputPrefix opts' = outputPrefix (opts\<lparr>k := x\<rparr>)"
              using IH by blast
            then show ?thesis by simp
          qed
        qed
      qed
    next
      case is_other
      show ?thesis
      proof (cases "arg \<noteq> [] \<and> hd arg = CHR ''-''")
        case True
        with returned Cons is_other not_output
        have "opts' = opts\<lparr>valid := False, errorMessage := ''Unknown option: '' @ arg\<rparr>"
          by simp
        then show ?thesis by simp
      next
        case False
        note positional = False
        show ?thesis
        proof (cases "inputFile opts = []")
          case False
          with returned Cons is_other not_output positional
          have "opts' = opts\<lparr>valid := False,
              errorMessage := ''Multiple input files specified.''\<rparr>"
            by simp
          then show ?thesis by simp
        next
          case True
          with returned Cons is_other not_output positional
          have "parse_loop D rest (opts\<lparr>inputFile := arg\<rparr>) = Return opts'" by simp
          moreover have "length rest < length xs" using Cons by simp
          ultimately have "outputPrefix opts' = outputPrefix (opts\<lparr>inputFile := arg\<rparr>)"
            using IH absent_rest by blast
          then show ?thesis by simp
        qed
      qed
    qed
  qed
qed

lemma parseArguments_early_return_prefix:
  assumes "''--output'' \<notin> set (tl argv)"
    and "\<not> valid (parseArguments D argv) \<or> showHelp (parseArguments D argv)"
  shows "outputPrefix (parseArguments D argv) = []"
proof (cases "length argv < 2")
  case True
  then show ?thesis by (simp add: parseArguments_def initial_options_def)
next
  case False
  note long = False
  show ?thesis
  proof (cases "parse_loop D (tl argv) (initial_options D)")
    case (Return opts)
    then have "outputPrefix opts = outputPrefix (initial_options D)"
      using assms(1) by (rule parse_loop_Return_prefix)
    moreover have "parseArguments D argv = opts"
      using long Return by (simp add: parseArguments_def)
    ultimately show ?thesis by (simp add: initial_options_def)
  next
    case (Completed opts)
    then have run: "consumed D (tl argv) (initial_options D) opts" by (rule parse_loop_consumed)
    then have pre: "outputPrefix opts = []"
      using consumed_no_output [OF run assms(1)] by (simp add: initial_options_def)
    from run have flags: "showHelp opts = False \<and> valid opts = True"
      using consumed_flags [OF run] by (simp add: initial_options_def)
    show ?thesis
    proof (cases "inputFile opts = []")
      case True
      then have "parseArguments D argv =
          opts\<lparr>valid := False, errorMessage := ''No input file specified.''\<rparr>"
        using long Completed by (simp add: parseArguments_def)
      then show ?thesis using pre by simp
    next
      case False
      then have "parseArguments D argv = opts\<lparr>outputPrefix := default_prefix (inputFile opts)\<rparr>"
        using long Completed pre by (simp add: parseArguments_def)
      then have "valid (parseArguments D argv) \<and> \<not> showHelp (parseArguments D argv)"
        using flags by simp
      with assms(2) show ?thesis by blast
    qed
  qed
qed

text \<open>
  Claim C8, amended. For an argument list in which \<open>--output\<close> does not occur:
  when \<open>parseArguments\<close> accepts the list (valid, no help request), the output prefix is
  the input file name without its last four characters if the name ends in the lower-case
  \<open>.off\<close>, and the input file name itself in every other case; when \<open>parseArguments\<close>
  returns early (an error, or a help request), the output prefix is left empty.
\<close>

theorem parseArguments_default_output_prefix:
  assumes "opts = parseArguments D argv" and "''--output'' \<notin> set (tl argv)"
    and "int (length (inputFile opts)) < size_limit"
  shows "(valid opts \<and> \<not> showHelp opts \<longrightarrow>
            (\<forall>p. inputFile opts = p @ ''.off'' \<longrightarrow> outputPrefix opts = p)
          \<and> (\<not> (\<exists>p. inputFile opts = p @ ''.off'') \<longrightarrow> outputPrefix opts = inputFile opts))
       \<and> (\<not> valid opts \<or> showHelp opts \<longrightarrow> outputPrefix opts = [])"
proof (intro conjI allI impI)
  fix p
  assume ok: "valid opts \<and> \<not> showHelp opts" and f: "inputFile opts = p @ ''.off''"
  from ok have v: "valid opts" and h: "\<not> showHelp opts" by blast+
  have pre: "outputPrefix opts = default_prefix (inputFile opts)"
    using v h assms(2) unfolding assms(1) by (rule parseArguments_default_prefix)
  have "int (length (p @ ''.off'')) < size_limit" using assms(3) unfolding f .
  then have "default_prefix (p @ ''.off'') = p" by (rule default_prefix_suffix)
  then show "outputPrefix opts = p" unfolding pre f .
next
  assume ok: "valid opts \<and> \<not> showHelp opts"
    and other: "\<not> (\<exists>p. inputFile opts = p @ ''.off'')"
  from ok have v: "valid opts" and h: "\<not> showHelp opts" by blast+
  have pre: "outputPrefix opts = default_prefix (inputFile opts)"
    using v h assms(2) unfolding assms(1) by (rule parseArguments_default_prefix)
  from assms(3) other have "default_prefix (inputFile opts) = inputFile opts"
    by (rule default_prefix_other)
  then show "outputPrefix opts = inputFile opts" unfolding pre .
next
  assume "\<not> valid opts \<or> showHelp opts"
  then show "outputPrefix opts = []"
    unfolding assms(1) using assms(2) by (intro parseArguments_early_return_prefix)
qed

theorem parseArguments_default_output_prefix_witness:
  "valid (parseArguments integer_doubles [''qmat_cli'', ''bunny.off'', ''--simplify'', ''500''])
   \<and> \<not> showHelp (parseArguments integer_doubles [''qmat_cli'', ''bunny.off'', ''--simplify'', ''500''])
   \<and> ''--output'' \<notin> set (tl [''qmat_cli'', ''bunny.off'', ''--simplify'', ''500''])
   \<and> int (length (inputFile (parseArguments integer_doubles
          [''qmat_cli'', ''bunny.off'', ''--simplify'', ''500'']))) < size_limit
   \<and> outputPrefix (parseArguments integer_doubles
          [''qmat_cli'', ''bunny.off'', ''--simplify'', ''500'']) = ''bunny''
   \<and> outputPrefix (parseArguments integer_doubles [''qmat_cli'', ''Bunny.OFF'']) = ''Bunny.OFF''
   \<and> outputPrefix (parseArguments integer_doubles [''qmat_cli'', ''a.off.bak'']) = ''a.off.bak''
   \<and> \<not> valid (parseArguments integer_doubles [''qmat_cli'', ''bunny.off'', ''--simplify''])
   \<and> outputPrefix (parseArguments integer_doubles [''qmat_cli'', ''bunny.off'', ''--simplify'']) = []"
proof -
  let ?a = "[''qmat_cli'', ''bunny.off'', ''--simplify'', ''500'']"
  let ?b = "[''qmat_cli'', ''Bunny.OFF'']"
  let ?c = "[''qmat_cli'', ''a.off.bak'']"
  let ?d = "[''qmat_cli'', ''bunny.off'', ''--simplify'']"
  have va: "valid (parseArguments integer_doubles ?a)" by code_simp
  have ha: "\<not> showHelp (parseArguments integer_doubles ?a)" by code_simp
  have oa: "''--output'' \<notin> set (tl ?a)" by simp
  have ia: "inputFile (parseArguments integer_doubles ?a) = ''bunny'' @ ''.off''" by code_simp
  have la: "int (length (inputFile (parseArguments integer_doubles ?a))) < size_limit"
    unfolding ia by (simp add: size_limit_def)
  have "outputPrefix (parseArguments integer_doubles ?a) = ''bunny''"
    using parseArguments_default_output_prefix [OF refl oa la] va ha ia by blast
  moreover
  have vb: "valid (parseArguments integer_doubles ?b)" by code_simp
  have hb: "\<not> showHelp (parseArguments integer_doubles ?b)" by code_simp
  have ob: "''--output'' \<notin> set (tl ?b)" by simp
  have ib: "inputFile (parseArguments integer_doubles ?b) = ''Bunny.OFF''" by code_simp
  have lb: "int (length (inputFile (parseArguments integer_doubles ?b))) < size_limit"
    unfolding ib by (simp add: size_limit_def)
  have nb: "\<not> (\<exists>p. inputFile (parseArguments integer_doubles ?b) = p @ ''.off'')"
    unfolding ib by (simp add: append_eq_Cons_conv)
  have "outputPrefix (parseArguments integer_doubles ?b) =
      inputFile (parseArguments integer_doubles ?b)"
    using parseArguments_default_output_prefix [OF refl ob lb] vb hb nb by blast
  then have "outputPrefix (parseArguments integer_doubles ?b) = ''Bunny.OFF''"
    unfolding ib .
  moreover
  have "outputPrefix (parseArguments integer_doubles ?c) = ''a.off.bak''" by code_simp
  moreover
  have vd: "\<not> valid (parseArguments integer_doubles ?d)" by code_simp
  have od: "''--output'' \<notin> set (tl ?d)" by simp
  have id: "inputFile (parseArguments integer_doubles ?d) = ''bunny.off''" by code_simp
  have ld: "int (length (inputFile (parseArguments integer_doubles ?d))) < size_limit"
    unfolding id by (simp add: size_limit_def)
  have "outputPrefix (parseArguments integer_doubles ?d) = []"
    using parseArguments_default_output_prefix [OF refl od ld] vd by blast
  ultimately show ?thesis using va ha oa la vd by (intro conjI)
qed

text \<open>
  Claim C8 as stated fails: with \<open>a.off --help\<close> and with \<open>a.off b.off\<close> the option
  \<open>--output\<close> is not supplied and the input file name is \<open>a.off\<close>, but
  \<open>parseArguments\<close> returns before the default is set and the output prefix is empty,
  not \<open>a\<close>.
\<close>

theorem early_return_leaves_prefix_empty:
  "''--output'' \<notin> set (tl [''qmat_cli'', ''a.off'', ''--help''])
   \<and> inputFile (parseArguments integer_doubles [''qmat_cli'', ''a.off'', ''--help'']) = ''a.off''
   \<and> outputPrefix (parseArguments integer_doubles [''qmat_cli'', ''a.off'', ''--help'']) = []
   \<and> ''--output'' \<notin> set (tl [''qmat_cli'', ''a.off'', ''b.off''])
   \<and> inputFile (parseArguments integer_doubles [''qmat_cli'', ''a.off'', ''b.off'']) = ''a.off''
   \<and> outputPrefix (parseArguments integer_doubles [''qmat_cli'', ''a.off'', ''b.off'']) = []"
proof (intro conjI)
  show "''--output'' \<notin> set (tl [''qmat_cli'', ''a.off'', ''--help''])" by simp
  show "inputFile (parseArguments integer_doubles [''qmat_cli'', ''a.off'', ''--help'']) = ''a.off''"
    by code_simp
  show "outputPrefix (parseArguments integer_doubles [''qmat_cli'', ''a.off'', ''--help'']) = []"
    by code_simp
  show "''--output'' \<notin> set (tl [''qmat_cli'', ''a.off'', ''b.off''])" by simp
  show "inputFile (parseArguments integer_doubles [''qmat_cli'', ''a.off'', ''b.off'']) = ''a.off''"
    by code_simp
  show "outputPrefix (parseArguments integer_doubles [''qmat_cli'', ''a.off'', ''b.off'']) = []"
    by code_simp
qed

section \<open>Properties of main\<close>

lemma run_calls_Nil: "run_calls E [] w = w"
  by (simp add: run_calls_def)

lemma run_calls_Cons: "run_calls E (c # cs) w = run_calls E cs (call_op E w c)"
  by (simp add: run_calls_def)

lemma run_calls_append: "run_calls E (a @ b) w = run_calls E b (run_calls E a w)"
  by (simp add: run_calls_def)

lemma calls_run_calls: "calls (run_calls E cs w) = calls w @ cs"
  by (induction cs arbitrary: w) (simp_all add: run_calls_Nil run_calls_Cons call_op_def)

lemma cout_run_calls: "cout (run_calls E cs w) = cout w"
  by (induction cs arbitrary: w) (simp_all add: run_calls_Nil run_calls_Cons call_op_def)


lemma shape_run_calls: "shape (run_calls E cs w) = foldl (\<lambda>s c. exec E c s) (shape w) cs"
  by (induction cs arbitrary: w) (simp_all add: run_calls_Nil run_calls_Cons call_op_def)

lemma filter_load_calls: "filter simplification_call (load_calls opts) = []"
  by (simp add: load_calls_def)

lemma filter_slab_calls: "filter simplification_call (slab_calls opts) = []"
  by (simp add: slab_calls_def)

lemma filter_simplify_calls: "filter simplification_call (simplify_calls opts n) = simplify_calls opts n"
  by (simp add: simplify_calls_def)

lemma simplify_block_skip:
  "numVertices E (shape w) \<le> simplifyTarget opts \<Longrightarrow>
   simplify_block E opts w =
     w\<lparr>cout := cout w @ [SkipWarning (simplifyTarget opts) (numVertices E (shape w))]\<rparr>"
  by (simp add: simplify_block_def)

lemma simplify_block_apply:
  "simplifyTarget opts < numVertices E (shape w) \<Longrightarrow>
   simplify_block E opts w =
     run_calls E (simplify_calls opts (numVertices E (shape w) - simplifyTarget opts)) w"
  by (simp add: simplify_block_def)

lemma main_rejects:
  assumes "opts = parseArguments D argv" and "\<not> valid opts" and "\<not> showHelp opts"
  shows "main E D argv s =
    (1, (start s)\<lparr>cerr := [''Error: '' @ errorMessage opts,
                           ''Use --help for usage information.'']\<rparr>)"
  using assms(2,3) unfolding assms(1) main_def Let_def by simp


lemma main_simplify_requested:
  assumes "opts = parseArguments D argv" and "valid opts" and "\<not> showHelp opts"
    and "can_open E (inputFile opts)" and "0 < simplifyTarget opts"
  shows "main E D argv s =
    (0, simplify_block E opts (run_calls E (load_calls opts @ slab_calls opts) (start s)))"
  using assms(2-5) unfolding assms(1) main_def Let_def by (simp add: run_calls_append)


text \<open>
  Claim C1. In every run that reaches the \<open>// Simplify\<close> block (options accepted, input
  file opened, a target requested) with a target greater than or equal to the vertex count
  of the loaded slab mesh, the block only prints the warning: the shape after \<open>main\<close> is
  the shape as it was loaded, and no cleanup, collapse, recomputation or export call is
  made.
\<close>

theorem simplification_skipped_at_or_above_count:
  assumes "opts = parseArguments D argv" and "valid opts" and "\<not> showHelp opts"
    and "can_open E (inputFile opts)" and "0 < simplifyTarget opts"
    and "w = run_calls E (load_calls opts @ slab_calls opts) (start s)"
    and "numVertices E (shape w) \<le> simplifyTarget opts"
  shows "simplify_block E opts w =
           w\<lparr>cout := cout w @ [SkipWarning (simplifyTarget opts) (numVertices E (shape w))]\<rparr>
       \<and> main E D argv s = (0, simplify_block E opts w)
       \<and> shape (snd (main E D argv s)) = shape w
       \<and> calls (snd (main E D argv s)) = load_calls opts @ slab_calls opts
       \<and> filter simplification_call (calls (snd (main E D argv s))) = []"
proof -
  have skip: "simplify_block E opts w =
      w\<lparr>cout := cout w @ [SkipWarning (simplifyTarget opts) (numVertices E (shape w))]\<rparr>"
    using assms(7) by (rule simplify_block_skip)
  have run: "main E D argv s = (0, simplify_block E opts w)"
    unfolding assms(6) using assms(1-5) by (rule main_simplify_requested)
  have cs: "calls w = load_calls opts @ slab_calls opts"
    unfolding assms(6) by (simp add: calls_run_calls start_def)
  have "shape (snd (main E D argv s)) = shape w" unfolding run skip by simp
  moreover have "calls (snd (main E D argv s)) = load_calls opts @ slab_calls opts"
    unfolding run skip using cs by simp
  moreover have "filter simplification_call (calls (snd (main E D argv s))) = []"
    unfolding run skip using cs by (simp add: filter_load_calls filter_slab_calls)
  ultimately show ?thesis using skip run by (intro conjI)
qed

theorem simplification_skipped_at_or_above_count_witness:
  "valid (parseArguments integer_doubles (bunny_args ''10''))
   \<and> \<not> showHelp (parseArguments integer_doubles (bunny_args ''10''))
   \<and> can_open counting_collaborators (inputFile (parseArguments integer_doubles (bunny_args ''10'')))
   \<and> simplifyTarget (parseArguments integer_doubles (bunny_args ''10'')) = 10
   \<and> numVertices counting_collaborators
        (shape (run_calls counting_collaborators
                 (load_calls (parseArguments integer_doubles (bunny_args ''10''))
                  @ slab_calls (parseArguments integer_doubles (bunny_args ''10'')))
                 (start 0))) = 10
   \<and> fst (main counting_collaborators integer_doubles (bunny_args ''10'') 0) = 0
   \<and> shape (snd (main counting_collaborators integer_doubles (bunny_args ''10'') 0)) = 10
   \<and> filter simplification_call
        (calls (snd (main counting_collaborators integer_doubles (bunny_args ''10'') 0))) = []"
proof -
  let ?opts = "parseArguments integer_doubles (bunny_args ''10'')"
  let ?w = "run_calls counting_collaborators (load_calls ?opts @ slab_calls ?opts) (start 0)"
  have v: "valid ?opts" by code_simp
  have h: "\<not> showHelp ?opts" by code_simp
  have c: "can_open counting_collaborators (inputFile ?opts)" by code_simp
  have t: "simplifyTarget ?opts = 10" by code_simp
  have n: "numVertices counting_collaborators (shape ?w) = 10" by code_simp
  have sh: "shape ?w = 10" by code_simp
  have p: "0 < simplifyTarget ?opts" unfolding t by simp
  have le: "numVertices counting_collaborators (shape ?w) \<le> simplifyTarget ?opts"
    unfolding t n by simp
  note skipped = simplification_skipped_at_or_above_count
    [of ?opts integer_doubles "bunny_args ''10''" counting_collaborators ?w 0,
     OF refl v h c p refl le]
  from skipped have "main counting_collaborators integer_doubles (bunny_args ''10'') 0 =
      (0, simplify_block counting_collaborators ?opts ?w)" by blast
  then have "fst (main counting_collaborators integer_doubles (bunny_args ''10'') 0) = 0"
    by simp
  moreover from skipped sh
  have "shape (snd (main counting_collaborators integer_doubles (bunny_args ''10'') 0)) = 10"
    by simp
  moreover from skipped
  have "filter simplification_call
        (calls (snd (main counting_collaborators integer_doubles (bunny_args ''10'') 0))) = []"
    by blast
  ultimately show ?thesis using v h c t n by (intro conjI)
qed

text \<open>
  Claim C4. In every run that applies simplification (a target below the vertex count of
  the loaded slab mesh), the calls made after loading are, in this order and once each:
  \<open>CleanIsolatedVertices\<close>, \<open>Simplify\<close>, \<open>ComputeFacesNormal\<close>,
  \<open>ComputeVerticesNormal\<close>, \<open>ComputeEdgesCone\<close>, \<open>ComputeFacesSimpleTriangles\<close>,
  \<open>Export\<close>. The number of collapses asked of \<open>Simplify\<close> is the vertex count read
  before the cleanup minus the target, so nothing the cleanup removes is counted in it.
\<close>

theorem simplification_call_order:
  assumes "opts = parseArguments D argv" and "valid opts" and "\<not> showHelp opts"
    and "can_open E (inputFile opts)" and "0 < simplifyTarget opts"
    and "w = run_calls E (load_calls opts @ slab_calls opts) (start s)"
    and "simplifyTarget opts < numVertices E (shape w)"
    and "reductionCount = numVertices E (shape w) - simplifyTarget opts"
  shows "main E D argv s = (0, run_calls E (simplify_calls opts reductionCount) w)
       \<and> calls (snd (main E D argv s)) =
           load_calls opts @ slab_calls opts @
           [CleanIsolatedVertices, Simplify reductionCount,
            ComputeFacesNormal, ComputeVerticesNormal, ComputeEdgesCone,
            ComputeFacesSimpleTriangles, Export (outputPrefix opts)]
       \<and> filter simplification_call (calls (snd (main E D argv s))) =
           [CleanIsolatedVertices, Simplify reductionCount,
            ComputeFacesNormal, ComputeVerticesNormal, ComputeEdgesCone,
            ComputeFacesSimpleTriangles, Export (outputPrefix opts)]
       \<and> shape (snd (main E D argv s)) =
           exec E (Export (outputPrefix opts))
            (exec E ComputeFacesSimpleTriangles
              (exec E ComputeEdgesCone
                (exec E ComputeVerticesNormal
                  (exec E ComputeFacesNormal
                    (exec E (Simplify reductionCount)
                      (exec E CleanIsolatedVertices (shape w)))))))"
proof -
  have block: "simplify_block E opts w = run_calls E (simplify_calls opts reductionCount) w"
    unfolding assms(8) using assms(7) by (rule simplify_block_apply)
  have "main E D argv s = (0, simplify_block E opts w)"
    unfolding assms(6) using assms(1-5) by (rule main_simplify_requested)
  then have run: "main E D argv s = (0, run_calls E (simplify_calls opts reductionCount) w)"
    unfolding block .
  have cs: "calls w = load_calls opts @ slab_calls opts"
    unfolding assms(6) by (simp add: calls_run_calls start_def)
  have all: "calls (snd (main E D argv s)) =
      load_calls opts @ slab_calls opts @ simplify_calls opts reductionCount"
    unfolding run using cs by (simp add: calls_run_calls)
  have "filter simplification_call (calls (snd (main E D argv s))) =
      simplify_calls opts reductionCount"
    unfolding all
    by (simp only: filter_append filter_load_calls filter_slab_calls filter_simplify_calls
        append_Nil)
  moreover have "shape (snd (main E D argv s)) =
      foldl (\<lambda>s c. exec E c s) (shape w) (simplify_calls opts reductionCount)"
    unfolding run by (simp add: shape_run_calls)
  ultimately show ?thesis using run all by (simp add: simplify_calls_def)
qed

theorem simplification_call_order_witness:
  "valid (parseArguments integer_doubles (bunny_args ''4''))
   \<and> \<not> showHelp (parseArguments integer_doubles (bunny_args ''4''))
   \<and> can_open counting_collaborators (inputFile (parseArguments integer_doubles (bunny_args ''4'')))
   \<and> simplifyTarget (parseArguments integer_doubles (bunny_args ''4'')) = 4
   \<and> numVertices counting_collaborators
        (shape (run_calls counting_collaborators
                 (load_calls (parseArguments integer_doubles (bunny_args ''4''))
                  @ slab_calls (parseArguments integer_doubles (bunny_args ''4'')))
                 (start 0))) = 10
   \<and> filter simplification_call
        (calls (snd (main counting_collaborators integer_doubles (bunny_args ''4'') 0))) =
       [CleanIsolatedVertices, Simplify 6, ComputeFacesNormal, ComputeVerticesNormal,
        ComputeEdgesCone, ComputeFacesSimpleTriangles, Export ''bunny'']"
proof -
  let ?opts = "parseArguments integer_doubles (bunny_args ''4'')"
  let ?w = "run_calls counting_collaborators (load_calls ?opts @ slab_calls ?opts) (start 0)"
  have v: "valid ?opts" by code_simp
  have h: "\<not> showHelp ?opts" by code_simp
  have c: "can_open counting_collaborators (inputFile ?opts)" by code_simp
  have t: "simplifyTarget ?opts = 4" by code_simp
  have n: "numVertices counting_collaborators (shape ?w) = 10" by code_simp
  have o: "outputPrefix ?opts = ''bunny''" by code_simp
  have p: "0 < simplifyTarget ?opts" unfolding t by simp
  have lt: "simplifyTarget ?opts < numVertices counting_collaborators (shape ?w)"
    unfolding t n by simp
  have r: "(6::int) = numVertices counting_collaborators (shape ?w) - simplifyTarget ?opts"
    unfolding t n by simp
  note order = simplification_call_order
    [of ?opts integer_doubles "bunny_args ''4''" counting_collaborators ?w 0 6,
     OF refl v h c p refl lt r]
  from order have "filter simplification_call
        (calls (snd (main counting_collaborators integer_doubles (bunny_args ''4'') 0))) =
       [CleanIsolatedVertices, Simplify 6, ComputeFacesNormal, ComputeVerticesNormal,
        ComputeEdgesCone, ComputeFacesSimpleTriangles, Export (outputPrefix ?opts)]"
    by blast
  then have "filter simplification_call
        (calls (snd (main counting_collaborators integer_doubles (bunny_args ''4'') 0))) =
       [CleanIsolatedVertices, Simplify 6, ComputeFacesNormal, ComputeVerticesNormal,
        ComputeEdgesCone, ComputeFacesSimpleTriangles, Export ''bunny'']"
    unfolding o .
  then show ?thesis using v h c t n by (intro conjI)
qed

lemma parseArguments_nonpositive_target:
  assumes "parse_loop D pre (initial_options D) = Completed opts'"
    and "stoi v = Inr n" and "n \<le> 0"
  shows "parseArguments D (prog # pre @ ''--simplify'' # v # rest) =
         opts'\<lparr>simplifyTarget := n, valid := False,
               errorMessage := ''--simplify value must be positive.''\<rparr>"
proof -
  from assms(1) have "consumed D pre (initial_options D) opts'" by (rule parse_loop_consumed)
  then have "parse_loop D (pre @ ''--simplify'' # v # rest) (initial_options D) =
      parse_loop D (''--simplify'' # v # rest) opts'"
    by (rule consumed_parse_loop)
  also have "\<dots> = Return (opts'\<lparr>simplifyTarget := n, valid := False,
               errorMessage := ''--simplify value must be positive.''\<rparr>)"
    using assms(2,3) by simp
  finally show ?thesis by (simp add: parseArguments_def)
qed

lemma parseArguments_target_range:
  assumes "valid (parseArguments D argv)" and "\<not> showHelp (parseArguments D argv)"
  shows "simplifyTarget (parseArguments D argv) = - 1 \<or> 0 < simplifyTarget (parseArguments D argv)"
proof -
  from assms obtain opts where run: "consumed D (tl argv) (initial_options D) opts"
    and res: "parseArguments D argv =
               (if outputPrefix opts = []
                then opts\<lparr>outputPrefix := default_prefix (inputFile opts)\<rparr> else opts)"
    using parseArguments_valid by blast
  from res have same: "simplifyTarget (parseArguments D argv) = simplifyTarget opts"
    by (cases "outputPrefix opts = []") simp_all
  from run have "simplifyTarget opts = simplifyTarget (initial_options D) \<or> 0 < simplifyTarget opts"
    by (rule consumed_target)
  then show ?thesis unfolding same by (simp add: initial_options_def)
qed

text \<open>
  Claim C3, amended. A non-positive \<open>--simplify\<close> value is a fatal error: wherever the
  loop reaches it, \<open>main\<close> prints the error and exits with status 1 without making any
  call; an accepted argument list has no target (\<open>-1\<close>) or a positive one. A positive
  target greater than or equal to the vertex count of the loaded slab mesh is the no-op:
  \<open>main\<close> prints the warning, leaves the loaded world as it is and exits with status 0.
\<close>

theorem target_out_of_range_handling:
  "(\<forall>prog pre opts' v n rest.
      parse_loop D pre (initial_options D) = Completed opts' \<and> stoi v = Inr n \<and> n \<le> 0 \<longrightarrow>
      main E D (prog # pre @ ''--simplify'' # v # rest) s =
        (1, (start s)\<lparr>cerr := [''Error: --simplify value must be positive.'',
                               ''Use --help for usage information.'']\<rparr>))
   \<and> (\<forall>argv. valid (parseArguments D argv) \<and> \<not> showHelp (parseArguments D argv) \<longrightarrow>
         simplifyTarget (parseArguments D argv) = - 1
         \<or> 0 < simplifyTarget (parseArguments D argv))
   \<and> (\<forall>argv opts w.
         opts = parseArguments D argv \<and> valid opts \<and> \<not> showHelp opts
         \<and> can_open E (inputFile opts) \<and> 0 < simplifyTarget opts
         \<and> w = run_calls E (load_calls opts @ slab_calls opts) (start s)
         \<and> numVertices E (shape w) \<le> simplifyTarget opts \<longrightarrow>
         main E D argv s =
           (0, w\<lparr>cout := [SkipWarning (simplifyTarget opts) (numVertices E (shape w))]\<rparr>))"
proof (intro conjI allI impI)
  fix prog pre opts' v n rest
  assume h: "parse_loop D pre (initial_options D) = Completed opts' \<and> stoi v = Inr n \<and> n \<le> 0"
  let ?argv = "prog # pre @ ''--simplify'' # v # rest"
  let ?opts = "opts'\<lparr>simplifyTarget := n, valid := False,
               errorMessage := ''--simplify value must be positive.''\<rparr>"
  from h have run: "parse_loop D pre (initial_options D) = Completed opts'"
    and v: "stoi v = Inr n" and n: "n \<le> 0" by blast+
  have parsed: "?opts = parseArguments D ?argv"
    using parseArguments_nonpositive_target [OF run v n] by simp
  from run have "consumed D pre (initial_options D) opts'" by (rule parse_loop_consumed)
  then have "showHelp opts' = showHelp (initial_options D)"
    using consumed_flags by blast
  then have nohelp: "\<not> showHelp ?opts" by (simp add: initial_options_def)
  have invalid: "\<not> valid ?opts" by simp
  from main_rejects [OF parsed invalid nohelp]
  show "main E D ?argv s =
        (1, (start s)\<lparr>cerr := [''Error: --simplify value must be positive.'',
                               ''Use --help for usage information.'']\<rparr>)"
    by simp
next
  fix argv
  assume "valid (parseArguments D argv) \<and> \<not> showHelp (parseArguments D argv)"
  then show "simplifyTarget (parseArguments D argv) = - 1
         \<or> 0 < simplifyTarget (parseArguments D argv)"
    using parseArguments_target_range by blast
next
  fix argv opts w
  assume h: "opts = parseArguments D argv \<and> valid opts \<and> \<not> showHelp opts
         \<and> can_open E (inputFile opts) \<and> 0 < simplifyTarget opts
         \<and> w = run_calls E (load_calls opts @ slab_calls opts) (start s)
         \<and> numVertices E (shape w) \<le> simplifyTarget opts"
  then have a: "opts = parseArguments D argv" and b: "valid opts" and c: "\<not> showHelp opts"
    and d: "can_open E (inputFile opts)" and e: "0 < simplifyTarget opts"
    and f: "w = run_calls E (load_calls opts @ slab_calls opts) (start s)"
    and g: "numVertices E (shape w) \<le> simplifyTarget opts"
    by blast+
  have "main E D argv s = (0, simplify_block E opts w)"
    unfolding f using a b c d e by (rule main_simplify_requested)
  moreover have "simplify_block E opts w =
      w\<lparr>cout := cout w @ [SkipWarning (simplifyTarget opts) (numVertices E (shape w))]\<rparr>"
    using g by (rule simplify_block_skip)
  moreover have "cout w = []" unfolding f by (simp add: cout_run_calls start_def)
  ultimately show "main E D argv s =
           (0, w\<lparr>cout := [SkipWarning (simplifyTarget opts) (numVertices E (shape w))]\<rparr>)"
    by simp
qed

theorem target_out_of_range_handling_witness:
  "parse_loop integer_doubles [''bunny.off''] (initial_options integer_doubles) =
     Completed ((initial_options integer_doubles)\<lparr>inputFile := ''bunny.off''\<rparr>)
   \<and> stoi ''-3'' = Inr (- 3)
   \<and> main counting_collaborators integer_doubles (bunny_args ''-3'') 0 =
       (1, (start 0)\<lparr>cerr := [''Error: --simplify value must be positive.'',
                              ''Use --help for usage information.'']\<rparr>)
   \<and> simplifyTarget (parseArguments integer_doubles [''qmat_cli'', ''bunny.off'']) = - 1
   \<and> simplifyTarget (parseArguments integer_doubles (bunny_args ''12'')) = 12
   \<and> fst (main counting_collaborators integer_doubles (bunny_args ''12'') 0) = 0
   \<and> cout (snd (main counting_collaborators integer_doubles (bunny_args ''12'') 0)) =
       [SkipWarning 12 10]"
proof -
  note handling = target_out_of_range_handling [of integer_doubles counting_collaborators 0]
  have run: "parse_loop integer_doubles [''bunny.off''] (initial_options integer_doubles) =
     Completed ((initial_options integer_doubles)\<lparr>inputFile := ''bunny.off''\<rparr>)"
    by code_simp
  have v3: "stoi ''-3'' = Inr (- 3)" by code_simp
  have le3: "(- 3 :: int) \<le> 0" by simp
  have "main counting_collaborators integer_doubles
          (''qmat_cli'' # [''bunny.off''] @ ''--simplify'' # ''-3'' # []) 0 =
       (1, (start 0)\<lparr>cerr := [''Error: --simplify value must be positive.'',
                              ''Use --help for usage information.'']\<rparr>)"
    by (rule handling [THEN conjunct1, rule_format, OF conjI [OF run conjI [OF v3 le3]]])
  then have fatal: "main counting_collaborators integer_doubles (bunny_args ''-3'') 0 =
       (1, (start 0)\<lparr>cerr := [''Error: --simplify value must be positive.'',
                              ''Use --help for usage information.'']\<rparr>)"
    by (simp add: bunny_args_def)
  have none: "simplifyTarget (parseArguments integer_doubles [''qmat_cli'', ''bunny.off'']) = - 1"
    by code_simp
  let ?opts = "parseArguments integer_doubles (bunny_args ''12'')"
  let ?w = "run_calls counting_collaborators (load_calls ?opts @ slab_calls ?opts) (start 0)"
  have v: "valid ?opts" by code_simp
  have h: "\<not> showHelp ?opts" by code_simp
  have c: "can_open counting_collaborators (inputFile ?opts)" by code_simp
  have t: "simplifyTarget ?opts = 12" by code_simp
  have n: "numVertices counting_collaborators (shape ?w) = 10" by code_simp
  have p: "0 < simplifyTarget ?opts" unfolding t by simp
  have le: "numVertices counting_collaborators (shape ?w) \<le> simplifyTarget ?opts"
    unfolding t n by simp
  have prem: "?opts = parseArguments integer_doubles (bunny_args ''12'') \<and> valid ?opts
      \<and> \<not> showHelp ?opts \<and> can_open counting_collaborators (inputFile ?opts)
      \<and> 0 < simplifyTarget ?opts \<and> ?w = ?w
      \<and> numVertices counting_collaborators (shape ?w) \<le> simplifyTarget ?opts"
    using v h c p le by (intro conjI refl)
  have "main counting_collaborators integer_doubles (bunny_args ''12'') 0 =
      (0, ?w\<lparr>cout := [SkipWarning (simplifyTarget ?opts)
                          (numVertices counting_collaborators (shape ?w))]\<rparr>)"
    by (rule handling [THEN conjunct2, THEN conjunct2, rule_format, OF prem])
  then have skip: "main counting_collaborators integer_doubles (bunny_args ''12'') 0 =
      (0, ?w\<lparr>cout := [SkipWarning 12 10]\<rparr>)"
    unfolding t n .
  have "fst (main counting_collaborators integer_doubles (bunny_args ''12'') 0) = 0"
    unfolding skip by simp
  moreover have "cout (snd (main counting_collaborators integer_doubles (bunny_args ''12'') 0)) =
       [SkipWarning 12 10]"
    unfolding skip by simp
  ultimately show ?thesis using run v3 fatal none t by (intro conjI)
qed

text \<open>
  Claim C3 as stated fails: with \<open>--simplify 0\<close> the run is not a skipped simplification
  with status 0, it ends with status 1 and an error message before the input is read.
\<close>

theorem nonpositive_target_exits_with_error:
  "main counting_collaborators integer_doubles (bunny_args ''0'') 0 =
     (1, \<lparr>shape = 0, calls = [], cout = [],
          cerr = [''Error: --simplify value must be positive.'',
                  ''Use --help for usage information.'']\<rparr>)"
  by code_simp




section \<open>Properties of the OBJ loader\<close>








lemma LoadObjFile_ignores_is_closed:
  "map_sum id (\<lambda>r. (loaded r, mesh r, error r, info r))
     (LoadObjFile LoadObj (P\<lparr>is_closed := c\<rparr>) filename mesh0 error0) =
   map_sum id (\<lambda>r. (loaded r, mesh r, error r, info r))
     (LoadObjFile LoadObj P filename mesh0 error0)"
  by (simp add: LoadObjFile_def split: sum.splits prod.splits delegate_outcome.splits)

text \<open>
  Claim C10. When the OBJ file parses and the polyhedron is built and valid,
  \<open>LoadObjFile\<close> returns \<open>true\<close> whether or not the mesh is closed; an open mesh only
  adds the warning line on standard error. More generally the answer of \<open>is_closed\<close> has
  no influence on what \<open>LoadObjFile\<close> returns, on the mesh, on the error text or on
  standard output.
\<close>

theorem LoadObjFile_open_mesh_loads:
  assumes "ParseObjFile LoadObj filename \<lparr>vertices = [], faces = []\<rparr> error0 =
             Inr (True, data, error1, out)"
    and "delegate P data mesh0 = Built m" and "is_valid P m"
  shows "LoadObjFile LoadObj P filename mesh0 error0 =
           Inr \<lparr>loaded = True, mesh = m, error = error1,
                warnings = (if is_closed P m then []
                            else [''Warning: Mesh is not closed (has boundary edges)'']),
                info = out\<rparr>
       \<and> map_sum id (\<lambda>r. (loaded r, mesh r, error r, info r))
             (LoadObjFile LoadObj (P\<lparr>is_closed := c\<rparr>) filename mesh0 error0) =
           map_sum id (\<lambda>r. (loaded r, mesh r, error r, info r))
             (LoadObjFile LoadObj P filename mesh0 error0)"
proof
  show "LoadObjFile LoadObj P filename mesh0 error0 =
           Inr \<lparr>loaded = True, mesh = m, error = error1,
                warnings = (if is_closed P m then []
                            else [''Warning: Mesh is not closed (has boundary edges)'']),
                info = out\<rparr>"
    using assms by (simp add: LoadObjFile_def)
  show "map_sum id (\<lambda>r. (loaded r, mesh r, error r, info r))
             (LoadObjFile LoadObj (P\<lparr>is_closed := c\<rparr>) filename mesh0 error0) =
           map_sum id (\<lambda>r. (loaded r, mesh r, error r, info r))
             (LoadObjFile LoadObj P filename mesh0 error0)"
    by (rule LoadObjFile_ignores_is_closed)
qed


theorem LoadObjFile_open_mesh_loads_witness:
  "ParseObjFile triangle_obj ''tri.obj'' \<lparr>vertices = [], faces = []\<rparr> [] =
     Inr (True, \<lparr>vertices = [0, 0, 0, 1, 0, 0, 0, 1, 0], faces = [[0, 1, 2]]\<rparr>, [],
          [ObjSummary 3 1])
   \<and> delegate data_as_mesh \<lparr>vertices = [0, 0, 0, 1, 0, 0, 0, 1, 0], faces = [[0, 1, 2]]\<rparr>
        \<lparr>vertices = [], faces = []\<rparr> =
       Built \<lparr>vertices = [0, 0, 0, 1, 0, 0, 0, 1, 0], faces = [[0, 1, 2]]\<rparr>
   \<and> is_valid data_as_mesh \<lparr>vertices = [0, 0, 0, 1, 0, 0, 0, 1, 0], faces = [[0, 1, 2]]\<rparr>
   \<and> \<not> is_closed data_as_mesh \<lparr>vertices = [0, 0, 0, 1, 0, 0, 0, 1, 0], faces = [[0, 1, 2]]\<rparr>
   \<and> LoadObjFile triangle_obj data_as_mesh ''tri.obj'' \<lparr>vertices = [], faces = []\<rparr> [] =
       Inr \<lparr>loaded = True,
            mesh = \<lparr>vertices = [0, 0, 0, 1, 0, 0, 0, 1, 0], faces = [[0, 1, 2]]\<rparr>,
            error = [],
            warnings = [''Warning: Mesh is not closed (has boundary edges)''],
            info = [ObjSummary 3 1]\<rparr>"
proof -
  let ?d = "\<lparr>vertices = [0, 0, 0, 1, 0, 0, 0, 1, 0::int], faces = [[0, 1, 2]]\<rparr>"
  let ?m0 = "\<lparr>vertices = [] :: int list, faces = []\<rparr>"
  have p: "ParseObjFile triangle_obj ''tri.obj'' ?m0 [] = Inr (True, ?d, [], [ObjSummary 3 1])"
    by code_simp
  have b: "delegate data_as_mesh ?d ?m0 = Built ?d" by (simp add: data_as_mesh_def)
  have v: "is_valid data_as_mesh ?d" by (simp add: data_as_mesh_def)
  have o: "\<not> is_closed data_as_mesh ?d" by (simp add: data_as_mesh_def)
  have "LoadObjFile triangle_obj data_as_mesh ''tri.obj'' ?m0 [] =
       Inr \<lparr>loaded = True, mesh = ?d, error = [],
            warnings = (if is_closed data_as_mesh ?d then []
                        else [''Warning: Mesh is not closed (has boundary edges)'']),
            info = [ObjSummary 3 1]\<rparr>"
    using p b v by (rule LoadObjFile_open_mesh_loads [THEN conjunct1])
  then have "LoadObjFile triangle_obj data_as_mesh ''tri.obj'' ?m0 [] =
       Inr \<lparr>loaded = True, mesh = ?d, error = [],
            warnings = [''Warning: Mesh is not closed (has boundary edges)''],
            info = [ObjSummary 3 1]\<rparr>"
    using o by simp
  then show ?thesis using p b v o by (intro conjI)
qed

end
